(* ===== verification/Prelude.thy ===== *)
theory Prelude
  imports Main "HOL-Library.Word" "HOL-Library.AList"
begin

text \<open>
  What every component shares: Rust's integers and byte vectors, \<open>Result\<close> with panics made
  visible, \<open>as_bytes\<close>, \<open>to_be_bytes\<close> / \<open>from_be_bytes\<close>, checked slice access, and the
  lemmas on lists and association lists that several components use.
\<close>

unbundle bit_operations_syntax

section \<open>Types\<close>

type_synonym u8 = "8 word"
type_synonym u32 = "32 word"
type_synonym u64 = "64 word"
type_synonym i32 = "32 word"
type_synonym bytes = "u8 list"

text \<open>An \<open>Instant\<close> is a number of nanoseconds since a fixed, arbitrary origin.\<close>

type_synonym instant = nat

named_theorems rust_simps \<open>what a result of the combinators on \<open>Result\<close> says of their arguments\<close>

section \<open>Results and panics\<close>

text \<open>
  Rust's \<open>Result<T, E>\<close>, with a third constructor for a panic (an index out of range, an
  \<open>expect\<close> on \<open>None\<close>), so that the absence of panics is a theorem and not an assumption.
\<close>

datatype ('a, 'e) res = Ok 'a | Err 'e | Panic

primrec rbind :: "('a, 'e) res \<Rightarrow> ('a \<Rightarrow> ('b, 'e) res) \<Rightarrow> ('b, 'e) res" where
  "rbind (Ok a) f = f a"
| "rbind (Err e) f = Err e"
| "rbind Panic f = Panic"

primrec map_err :: "('e \<Rightarrow> 'f) \<Rightarrow> ('a, 'e) res \<Rightarrow> ('a, 'f) res" where
  "map_err f (Ok a) = Ok a"
| "map_err f (Err e) = Err (f e)"
| "map_err f Panic = Panic"

definition ok_or :: "'a option \<Rightarrow> 'e \<Rightarrow> ('a, 'e) res" where
  "ok_or x e = (case x of Some a \<Rightarrow> Ok a | None \<Rightarrow> Err e)"

definition is_ok :: "('a, 'e) res \<Rightarrow> bool" where
  "is_ok r = (case r of Ok _ \<Rightarrow> True | _ \<Rightarrow> False)"

lemma rbind_Ok_conv [rust_simps]: "rbind m f = Ok b \<longleftrightarrow> (\<exists>a. m = Ok a \<and> f a = Ok b)"
  by (cases m) auto

lemma rbind_Panic_conv [rust_simps]: "rbind m f = Panic \<longleftrightarrow> m = Panic \<or> (\<exists>a. m = Ok a \<and> f a = Panic)"
  by (cases m) auto

lemma rbind_Err_conv [rust_simps]: "rbind m f = Err e \<longleftrightarrow> m = Err e \<or> (\<exists>a. m = Ok a \<and> f a = Err e)"
  by (cases m) auto

lemma map_err_Ok_conv [simp]: "map_err f m = Ok a \<longleftrightarrow> m = Ok a"
  by (cases m) auto

lemma map_err_Err_conv [rust_simps]: "map_err f m = Err e \<longleftrightarrow> (\<exists>e'. m = Err e' \<and> e = f e')"
  by (cases m) auto

lemma map_err_Panic_conv [simp]: "map_err f m = Panic \<longleftrightarrow> m = Panic"
  by (cases m) auto

lemma ok_or_simps [simp]:
  "ok_or (Some a) e = Ok a"
  "ok_or None e = Err e"
  by (simp_all add: ok_or_def)

lemma ok_or_Ok_conv [simp]: "ok_or x e = Ok a \<longleftrightarrow> x = Some a"
  by (cases x) auto

lemma ok_or_Err_conv [simp]: "ok_or x e = Err e' \<longleftrightarrow> x = None \<and> e' = e"
  by (cases x) auto

lemma ok_or_no_panic [simp]: "ok_or x e \<noteq> Panic"
  by (cases x) auto

lemma is_ok_simps [simp]: "is_ok (Ok a)" "\<not> is_ok (Err e)" "\<not> is_ok Panic"
  by (simp_all add: is_ok_def)

lemma is_ok_conv: "is_ok r \<longleftrightarrow> (\<exists>a. r = Ok a)"
  by (cases r) auto

section \<open>Slices\<close>

text \<open>Indexing and splitting panic out of range; comparing slices does not.\<close>

definition slice_index :: "'a list \<Rightarrow> nat \<Rightarrow> ('a, 'e) res" where
  "slice_index xs i = (if i < length xs then Ok (xs ! i) else Panic)"

definition slice_to :: "'a list \<Rightarrow> nat \<Rightarrow> ('a list, 'e) res" where
  "slice_to xs n = (if n \<le> length xs then Ok (take n xs) else Panic)"

definition split_at :: "'a list \<Rightarrow> nat \<Rightarrow> ('a list \<times> 'a list, 'e) res" where
  "split_at xs n = (if n \<le> length xs then Ok (take n xs, drop n xs) else Panic)"

lemma slice_in_range [simp]:
  "i < length xs \<Longrightarrow> slice_index xs i = Ok (xs ! i)"
  "n \<le> length xs \<Longrightarrow> slice_to xs n = Ok (take n xs)"
  "n \<le> length xs \<Longrightarrow> split_at xs n = Ok (take n xs, drop n xs)"
  by (simp_all add: slice_index_def slice_to_def split_at_def)

section \<open>Strings and bytes\<close>

text \<open>
  A Rust string is its UTF-8 bytes: a HOL \<open>char\<close> is one byte, and \<open>len\<close> counts bytes.
\<close>

definition as_bytes :: "string \<Rightarrow> bytes" where
  "as_bytes s = map of_char s"

definition to_ascii_lowercase :: "string \<Rightarrow> string" where
  "to_ascii_lowercase s =
     map (\<lambda>c. if 65 \<le> (of_char c :: nat) \<and> (of_char c :: nat) \<le> 90
              then char_of (of_char c + (32 :: nat)) else c) s"

lemma length_as_bytes [simp]: "length (as_bytes s) = length s"
  by (simp add: as_bytes_def)

lemma as_bytes_Nil [simp]: "as_bytes s = [] \<longleftrightarrow> s = []"
  by (simp add: as_bytes_def)

lemma unat_of_char [simp]: "unat (of_char c :: u8) = of_char c"
proof -
  have "unat (of_nat (of_char c) :: u8) = of_char c"
    by (subst unat_of_nat) simp
  then show ?thesis by (simp only: of_nat_of_char)
qed

lemma of_char_u8_inj: "(of_char c :: u8) = of_char d \<Longrightarrow> c = d"
proof -
  assume "(of_char c :: u8) = of_char d"
  then have "unat (of_char c :: u8) = unat (of_char d :: u8)" by (rule arg_cong)
  then show "c = d" by (simp only: unat_of_char of_char_eq_iff)
qed

lemma as_bytes_inject [simp]: "as_bytes s = as_bytes t \<longleftrightarrow> s = t"
  unfolding as_bytes_def by (auto dest!: map_injective intro!: injI of_char_u8_inj)

lemma chars_of_bytes [simp]: "map (\<lambda>w. char_of (unat w)) (as_bytes s) = s"
  by (simp add: as_bytes_def map_idI)

text \<open>\<open>Display\<close> of a \<open>usize\<close>: decimal digits.\<close>

fun decimal :: "nat \<Rightarrow> string" where
  "decimal n =
     (if n < 10 then [char_of (48 + n)] else decimal (n div 10) @ [char_of (48 + n mod 10)])"

declare decimal.simps [simp del]

lemma decimal_nonempty [simp]: "decimal n \<noteq> []" "[] \<noteq> decimal n"
  by (subst decimal.simps, simp)+

lemma char_of_digit_inject:
  "a < 10 \<Longrightarrow> b < 10 \<Longrightarrow> (char_of (48 + a) :: char) = char_of (48 + b) \<longleftrightarrow> a = (b :: nat)"
proof
  assume ab: "a < 10" "b < 10" and "(char_of (48 + a) :: char) = char_of (48 + b)"
  then have "(of_char (char_of (48 + a)) :: nat) = of_char (char_of (48 + b))" by simp
  with ab show "a = b" by (simp add: of_char_of)
qed simp

lemma decimal_inject [simp]: "decimal m = decimal n \<longleftrightarrow> m = n"
proof (induction m arbitrary: n rule: decimal.induct)
  case (1 m)
  note m = decimal.simps [of m] and n = decimal.simps [of n]
  show ?case
  proof (cases "m < 10"; cases "n < 10")
    assume "\<not> m < 10" "\<not> n < 10"
    with m n have "decimal m = decimal n \<longleftrightarrow> m div 10 = n div 10 \<and> m mod 10 = n mod 10"
      by (simp add: 1 char_of_digit_inject)
    then show ?thesis by (metis div_mult_mod_eq)
  qed (use m n in \<open>auto simp: char_of_digit_inject\<close>)
qed

section \<open>Big-endian integers\<close>

text \<open>\<open>u64::to_be_bytes\<close> and \<open>u32::from_be_bytes\<close>: the most significant byte comes first.\<close>

definition u64_to_be_bytes :: "u64 \<Rightarrow> bytes" where
  "u64_to_be_bytes w = map (\<lambda>i. ucast (drop_bit (8 * i) w)) (rev [0..<8])"

definition u32_to_be_bytes :: "u32 \<Rightarrow> bytes" where
  "u32_to_be_bytes w = map (\<lambda>i. ucast (drop_bit (8 * i) w)) (rev [0..<4])"

definition u32_from_be_bytes :: "u8 \<Rightarrow> u8 \<Rightarrow> u8 \<Rightarrow> u8 \<Rightarrow> u32" where
  "u32_from_be_bytes b0 b1 b2 b3 =
     push_bit 24 (ucast b0) OR push_bit 16 (ucast b1) OR push_bit 8 (ucast b2) OR ucast b3"

lemma length_u64_to_be_bytes [simp]: "length (u64_to_be_bytes w) = 8"
  by (simp add: u64_to_be_bytes_def)

lemma length_u32_to_be_bytes [simp]: "length (u32_to_be_bytes w) = 4"
  by (simp add: u32_to_be_bytes_def)

lemma u64_to_be_bytes_bit:
  assumes "n < 64"
  shows "bit w n = bit (u64_to_be_bytes w ! (7 - n div 8)) (n mod 8)"
proof -
  have "7 - n div 8 < 8" and "n div 8 < 8" using assms by auto
  then have "u64_to_be_bytes w ! (7 - n div 8) = ucast (drop_bit (8 * (n div 8)) w)"
    by (simp add: u64_to_be_bytes_def rev_nth del: upt_Suc)
  moreover have "8 * (n div 8) + n mod 8 = n" by simp
  ultimately show ?thesis
    by (simp add: bit_ucast_iff bit_drop_bit_eq)
qed

lemma u64_to_be_bytes_inject [simp]: "u64_to_be_bytes v = u64_to_be_bytes w \<longleftrightarrow> v = w"
proof
  assume eq: "u64_to_be_bytes v = u64_to_be_bytes w"
  show "v = w"
  proof (rule bit_word_eqI)
    fix n assume "n < LENGTH(64)"
    then show "bit v n = bit w n"
      using eq by (simp add: u64_to_be_bytes_bit)
  qed
qed simp

lemma u32_from_to_be_bytes [simp]:
  "u32_from_be_bytes (u32_to_be_bytes w ! 0) (u32_to_be_bytes w ! 1)
     (u32_to_be_bytes w ! 2) (u32_to_be_bytes w ! 3) = w"
proof (rule bit_word_eqI)
  fix n assume n: "n < LENGTH(32)"
  have b: "u32_to_be_bytes w =
      [ucast (drop_bit 24 w), ucast (drop_bit 16 w), ucast (drop_bit 8 w), ucast w]"
    by (simp add: u32_to_be_bytes_def upt_rec)
  consider "n < 8" | "8 \<le> n" "n < 16" | "16 \<le> n" "n < 24" | "24 \<le> n"
    by linarith
  then show "bit (u32_from_be_bytes (u32_to_be_bytes w ! 0) (u32_to_be_bytes w ! 1)
      (u32_to_be_bytes w ! 2) (u32_to_be_bytes w ! 3)) n = bit w n"
    using n
    by cases (auto simp: b u32_from_be_bytes_def bit_or_iff bit_push_bit_iff bit_ucast_iff
        bit_drop_bit_eq)
qed

end
