(* ===== verification/Messages.thy ===== *)
theory Messages
  imports Prelude
begin

text \<open>
  The wire messages of \<open>crypto/src/gen/aiauth/crypto/v1/aiauth.crypto.v1.rs\<close>: one record per
  protobuf message, the two enumerations with their discriminants, names and derived order, and
  the total accessor that prost derives for an enumeration field (an integer that is no
  discriminant reads as the default, \<open>Unspecified\<close>).
\<close>

section \<open>Purpose\<close>

datatype Purpose = Purpose_Unspecified | PasskeyLogin | RowEncrypt | RowDecrypt | BlindIndex

primrec purpose_discriminant :: "Purpose \<Rightarrow> nat" where
  "purpose_discriminant Purpose_Unspecified = 0"
| "purpose_discriminant PasskeyLogin = 1"
| "purpose_discriminant RowEncrypt = 2"
| "purpose_discriminant RowDecrypt = 3"
| "purpose_discriminant BlindIndex = 4"

definition purpose_as_i32 :: "Purpose \<Rightarrow> i32" where
  "purpose_as_i32 p = of_nat (purpose_discriminant p)"

definition purpose_try_from :: "i32 \<Rightarrow> Purpose option" where
  "purpose_try_from n =
     (if n = 0 then Some Purpose_Unspecified
      else if n = 1 then Some PasskeyLogin
      else if n = 2 then Some RowEncrypt
      else if n = 3 then Some RowDecrypt
      else if n = 4 then Some BlindIndex
      else None)"

primrec purpose_as_str_name :: "Purpose \<Rightarrow> string" where
  "purpose_as_str_name Purpose_Unspecified = ''PURPOSE_UNSPECIFIED''"
| "purpose_as_str_name PasskeyLogin = ''PURPOSE_PASSKEY_LOGIN''"
| "purpose_as_str_name RowEncrypt = ''PURPOSE_ROW_ENCRYPT''"
| "purpose_as_str_name RowDecrypt = ''PURPOSE_ROW_DECRYPT''"
| "purpose_as_str_name BlindIndex = ''PURPOSE_BLIND_INDEX''"

definition purpose_from_str_name :: "string \<Rightarrow> Purpose option" where
  "purpose_from_str_name v =
     (if v = ''PURPOSE_UNSPECIFIED'' then Some Purpose_Unspecified
      else if v = ''PURPOSE_PASSKEY_LOGIN'' then Some PasskeyLogin
      else if v = ''PURPOSE_ROW_ENCRYPT'' then Some RowEncrypt
      else if v = ''PURPOSE_ROW_DECRYPT'' then Some RowDecrypt
      else if v = ''PURPOSE_BLIND_INDEX'' then Some BlindIndex
      else None)"

text \<open>The derived \<open>Debug\<close> form: the variant's name.\<close>

primrec purpose_debug :: "Purpose \<Rightarrow> string" where
  "purpose_debug Purpose_Unspecified = ''Unspecified''"
| "purpose_debug PasskeyLogin = ''PasskeyLogin''"
| "purpose_debug RowEncrypt = ''RowEncrypt''"
| "purpose_debug RowDecrypt = ''RowDecrypt''"
| "purpose_debug BlindIndex = ''BlindIndex''"

text \<open>The derived \<open>PartialOrd\<close> and \<open>Ord\<close> compare discriminants.\<close>

lemma purpose_discriminant_inject [simp]:
  "purpose_discriminant p = purpose_discriminant q \<longleftrightarrow> p = q"
  by (cases p; cases q) simp_all

definition purpose_le :: "Purpose \<Rightarrow> Purpose \<Rightarrow> bool" where
  "purpose_le p q \<longleftrightarrow> purpose_discriminant p \<le> purpose_discriminant q"

definition purpose_less :: "Purpose \<Rightarrow> Purpose \<Rightarrow> bool" where
  "purpose_less p q \<longleftrightarrow> purpose_discriminant p < purpose_discriminant q"

instantiation Purpose :: linorder
begin

definition less_eq_Purpose :: "Purpose \<Rightarrow> Purpose \<Rightarrow> bool" where
  "less_eq_Purpose = purpose_le"

definition less_Purpose :: "Purpose \<Rightarrow> Purpose \<Rightarrow> bool" where
  "less_Purpose = purpose_less"

instance
  by standard (auto simp: less_eq_Purpose_def less_Purpose_def purpose_le_def purpose_less_def
      simp flip: purpose_discriminant_inject)

end

lemma purpose_try_from_as_i32 [simp]: "purpose_try_from (purpose_as_i32 p) = Some p"
  by (cases p) (simp_all add: purpose_try_from_def purpose_as_i32_def)

lemma purpose_try_from_Some: "purpose_try_from n = Some p \<Longrightarrow> n = purpose_as_i32 p"
  by (auto simp: purpose_try_from_def purpose_as_i32_def split: if_splits)

section \<open>Verdict\<close>

datatype Verdict = Verdict_Unspecified | Verified | Rejected

primrec verdict_as_i32 :: "Verdict \<Rightarrow> i32" where
  "verdict_as_i32 Verdict_Unspecified = 0"
| "verdict_as_i32 Verified = 1"
| "verdict_as_i32 Rejected = 2"

primrec verdict_discriminant :: "Verdict \<Rightarrow> nat" where
  "verdict_discriminant Verdict_Unspecified = 0"
| "verdict_discriminant Verified = 1"
| "verdict_discriminant Rejected = 2"

lemma verdict_discriminant_inject [simp]:
  "verdict_discriminant v = verdict_discriminant w \<longleftrightarrow> v = w"
  by (cases v; cases w) simp_all

definition verdict_le :: "Verdict \<Rightarrow> Verdict \<Rightarrow> bool" where
  "verdict_le v w \<longleftrightarrow> verdict_discriminant v \<le> verdict_discriminant w"

definition verdict_less :: "Verdict \<Rightarrow> Verdict \<Rightarrow> bool" where
  "verdict_less v w \<longleftrightarrow> verdict_discriminant v < verdict_discriminant w"

instantiation Verdict :: linorder
begin

definition less_eq_Verdict :: "Verdict \<Rightarrow> Verdict \<Rightarrow> bool" where
  "less_eq_Verdict = verdict_le"

definition less_Verdict :: "Verdict \<Rightarrow> Verdict \<Rightarrow> bool" where
  "less_Verdict = verdict_less"

instance
  by standard (auto simp: less_eq_Verdict_def less_Verdict_def verdict_le_def verdict_less_def
      simp flip: verdict_discriminant_inject)

end

primrec verdict_as_str_name :: "Verdict \<Rightarrow> string" where
  "verdict_as_str_name Verdict_Unspecified = ''VERDICT_UNSPECIFIED''"
| "verdict_as_str_name Verified = ''VERDICT_VERIFIED''"
| "verdict_as_str_name Rejected = ''VERDICT_REJECTED''"

definition verdict_from_str_name :: "string \<Rightarrow> Verdict option" where
  "verdict_from_str_name v =
     (if v = ''VERDICT_UNSPECIFIED'' then Some Verdict_Unspecified
      else if v = ''VERDICT_VERIFIED'' then Some Verified
      else if v = ''VERDICT_REJECTED'' then Some Rejected
      else None)"

section \<open>Messages\<close>

record RequestContext =
  tenant_id :: string
  subject_id :: string
  purpose :: i32
  request_id :: string

text \<open>prost's derived accessor for the enumeration field \<open>purpose\<close>.\<close>

definition get_purpose :: "RequestContext \<Rightarrow> Purpose" where
  "get_purpose c =
     (case purpose_try_from (purpose c) of Some p \<Rightarrow> p | None \<Rightarrow> Purpose_Unspecified)"

record StoredCredential =
  cose_public_key :: bytes
  sign_count :: u32

record Assertion =
  authenticator_data :: bytes
  client_data_json :: bytes
  signature :: bytes

record VerifyAssertionRequest =
  va_context :: "RequestContext option"
  rp_id :: string
  expected_origin :: string
  expected_challenge :: bytes
  credential :: "StoredCredential option"
  assertion :: "Assertion option"

record VerifyAssertionResponse =
  verdict :: i32
  reason :: string
  new_sign_count :: u32

record EncryptFieldRequest =
  ef_context :: "RequestContext option"
  ef_plaintext :: bytes
  ef_wrapped_dek :: bytes

record EncryptFieldResponse =
  resp_ciphertext :: bytes
  resp_wrapped_dek :: bytes

record DecryptFieldRequest =
  df_context :: "RequestContext option"
  df_ciphertext :: bytes
  df_wrapped_dek :: bytes

record DecryptFieldResponse =
  resp_plaintext :: bytes

record BlindIndexRequest =
  bi_context :: "RequestContext option"
  bi_input :: bytes

record BlindIndexResponse =
  bi_index :: bytes

section \<open>Properties\<close>

lemma get_purpose_Unspecified_iff:
  "get_purpose c = Purpose_Unspecified \<longleftrightarrow> purpose c \<notin> {1, 2, 3, 4}"
  by (auto simp: get_purpose_def purpose_try_from_def)

lemma get_purpose_as_i32: "purpose c = purpose_as_i32 p \<Longrightarrow> get_purpose c = p"
  by (simp add: get_purpose_def)

lemma purpose_from_as_str_name: "purpose_from_str_name (purpose_as_str_name p) = Some p"
  by (cases p) (simp_all add: purpose_from_str_name_def)

lemma verdict_from_as_str_name: "verdict_from_str_name (verdict_as_str_name v) = Some v"
  by (cases v) (simp_all add: verdict_from_str_name_def)

end
