(* ===== verification/Context_Gate.thy ===== *)
theory Context_Gate
  imports Messages
begin

text \<open>
  The T9 gate, \<open>crypto/src/context.rs\<close>: \<open>validate\<close> with its checks in the order of the
  source, and the gRPC status it refuses with (tonic's \<open>Status\<close>, a code and a message).
\<close>

section \<open>Status\<close>

datatype Code = Unknown | InvalidArgument | PermissionDenied | ResourceExhausted | Internal | Unimplemented

record Status =
  code :: Code
  message :: string

definition invalid_argument :: "string \<Rightarrow> Status" where
  "invalid_argument m = \<lparr>code = InvalidArgument, message = m\<rparr>"

definition permission_denied :: "string \<Rightarrow> Status" where
  "permission_denied m = \<lparr>code = PermissionDenied, message = m\<rparr>"

definition resource_exhausted :: "string \<Rightarrow> Status" where
  "resource_exhausted m = \<lparr>code = ResourceExhausted, message = m\<rparr>"

definition internal :: "string \<Rightarrow> Status" where
  "internal m = \<lparr>code = Internal, message = m\<rparr>"

definition unknown :: "string \<Rightarrow> Status" where
  "unknown m = \<lparr>code = Unknown, message = m\<rparr>"

lemma status_sel [simp]:
  "code (unknown m) = Unknown" "message (unknown m) = m"
  "code (invalid_argument m) = InvalidArgument" "message (invalid_argument m) = m"
  "code (permission_denied m) = PermissionDenied" "message (permission_denied m) = m"
  "code (resource_exhausted m) = ResourceExhausted" "message (resource_exhausted m) = m"
  "code (internal m) = Internal" "message (internal m) = m"
  by (simp_all add: invalid_argument_def permission_denied_def resource_exhausted_def internal_def
      unknown_def)

section \<open>The gate\<close>

definition validate :: "RequestContext option \<Rightarrow> Purpose \<Rightarrow> bool \<Rightarrow> (unit, Status) res" where
  "validate ctx want subject_required =
     rbind (ok_or ctx (invalid_argument ''request_context is required'')) (\<lambda>ctx.
       if request_id ctx = [] then
         Err (invalid_argument
           ''request_id is required: every key operation is individually audited'')
       else if tenant_id ctx = [] then
         Err (invalid_argument ''tenant_id is required (T10)'')
       else if subject_required \<and> subject_id ctx = [] then
         Err (invalid_argument ''subject_id is required for row operations'')
       else
         (let got = get_purpose ctx in
          if got = Purpose_Unspecified then
            Err (invalid_argument ''PURPOSE_UNSPECIFIED is always rejected (T9)'')
          else if got \<noteq> want then
            Err (permission_denied
              (''purpose '' @ purpose_debug got @ '' does not match this operation (T9)''))
          else Ok ()))"

text \<open>The structural part of the gate: the context names a request, a tenant and, for row
  operations, a subject.\<close>

definition well_formed_context :: "RequestContext \<Rightarrow> bool \<Rightarrow> bool" where
  "well_formed_context c subject_required \<longleftrightarrow>
     request_id c \<noteq> [] \<and> tenant_id c \<noteq> [] \<and> \<not> (subject_required \<and> subject_id c = [])"

lemma validate_None:
  "validate None want sr = Err (invalid_argument ''request_context is required'')"
  by (simp add: validate_def)

lemma validate_no_panic [simp]: "validate ctx want sr \<noteq> Panic"
  by (cases ctx) (simp_all add: validate_def Let_def)

lemma validate_OkD:
  assumes "validate ctx want sr = Ok u"
  obtains c where "ctx = Some c" "well_formed_context c sr" "get_purpose c = want"
    "want \<noteq> Purpose_Unspecified"
  using assms
  by (cases ctx) (auto simp: validate_def well_formed_context_def Let_def split: if_splits)

lemma validate_Ok_cases:
  "validate (Some c) want sr = Ok () \<longleftrightarrow>
     well_formed_context c sr \<and> get_purpose c = want \<and> want \<noteq> Purpose_Unspecified"
  by (auto simp: validate_def well_formed_context_def Let_def)

section \<open>Properties\<close>

text \<open>C1: the gate lets a request through exactly when its context is present, names a request,
  a tenant and (where the operation requires one) a subject, and declares the very purpose the
  operation requires, which is never \<open>Unspecified\<close>.\<close>

theorem validate_accepts_iff:
  "validate ctx want subject_required = Ok () \<longleftrightarrow>
     (\<exists>c. ctx = Some c \<and> request_id c \<noteq> [] \<and> tenant_id c \<noteq> [] \<and>
          (if subject_required then subject_id c \<noteq> [] else True) \<and>
          want \<noteq> Purpose_Unspecified \<and> purpose c = purpose_as_i32 want)"
proof -
  have "get_purpose c = want \<and> want \<noteq> Purpose_Unspecified \<longleftrightarrow>
      want \<noteq> Purpose_Unspecified \<and> purpose c = purpose_as_i32 want" for c
    by (auto simp: get_purpose_def split: option.splits dest: purpose_try_from_Some)
  then show ?thesis
    by (cases ctx) (auto simp: validate_None validate_Ok_cases well_formed_context_def)
qed

end
