(* ===== verification/Float64.thy ===== *)
theory Float64
  imports Prelude "HOL-Library.Log_Nat"
begin

text \<open>
  The arithmetic of Rust's \<open>f64\<close> that the rate limiter uses. A finite double is the rational it
  stands for; every operation computes the exact rational result and rounds it with
  \<open>f64_round\<close>, IEEE 754 round-to-nearest, ties-to-even, with a 53-bit significand and gradual
  underflow at \<open>2 powi -1074\<close>. Overflow to infinity is not represented: the limiter caps every
  sum with \<open>min\<close> or compares it with \<open><\<close>, where a finite value above the capacity and infinity
  are treated alike.
\<close>

section \<open>Rounding\<close>

definition exponent :: "rat \<Rightarrow> int" where
  "exponent x =
     (let (p, q) = quotient_of x; k = bitlen p - bitlen q
      in if 2 powi k \<le> x then k else k - 1)"

definition ulp :: "rat \<Rightarrow> rat" where
  "ulp x = 2 powi (max (exponent x - 52) (-1074))"

text \<open>Nearest integer, the even one when two are equally near.\<close>

definition round_half_even :: "rat \<Rightarrow> int" where
  "round_half_even x =
     (let f = \<lfloor>x\<rfloor>; d = x - of_int f
      in if d < 1 / 2 then f else if 1 / 2 < d then f + 1 else if even f then f else f + 1)"

definition round_pos :: "rat \<Rightarrow> rat" where
  "round_pos x = of_int (round_half_even (x / ulp x)) * ulp x"

definition f64_round :: "rat \<Rightarrow> rat" where
  "f64_round x = (if x = 0 then 0 else if x < 0 then - round_pos (- x) else round_pos x)"

definition f64_add :: "rat \<Rightarrow> rat \<Rightarrow> rat" where
  "f64_add x y = f64_round (x + y)"

definition f64_sub :: "rat \<Rightarrow> rat \<Rightarrow> rat" where
  "f64_sub x y = f64_round (x - y)"

definition f64_mul :: "rat \<Rightarrow> rat \<Rightarrow> rat" where
  "f64_mul x y = f64_round (x * y)"

definition f64_div :: "rat \<Rightarrow> rat \<Rightarrow> rat" where
  "f64_div x y = f64_round (x / y)"

text \<open>\<open>as f64\<close> on an unsigned integer, and \<open>Duration::as_secs_f64\<close> on nanoseconds.\<close>

definition f64_of_nat :: "nat \<Rightarrow> rat" where
  "f64_of_nat n = f64_round (of_nat n)"

definition as_secs_f64 :: "nat \<Rightarrow> rat" where
  "as_secs_f64 d =
     f64_add (f64_of_nat (d div 1000000000))
       (f64_div (f64_of_nat (d mod 1000000000)) (f64_of_nat 1000000000))"

section \<open>The exponent\<close>

lemma powi_pos [simp]: "0 < (2 :: rat) powi k"
  by simp

lemma powi_mono: "a \<le> b \<Longrightarrow> (2 :: rat) powi a \<le> 2 powi b"
  by (rule power_int_increasing) auto

lemma powi_less_iff: "(2 :: rat) powi a < 2 powi b \<longleftrightarrow> a < b"
  by (metis linorder_not_le one_less_numeral_iff power_int_strict_increasing powi_mono
      semiring_norm(76))

lemma powi_diff_nat: "b \<le> a \<Longrightarrow> (2 :: rat) powi a = of_int (2 ^ nat (a - b)) * 2 powi b"
proof -
  assume "b \<le> a"
  then obtain n where "a = b + int n" by (metis zle_iff_zadd)
  then show ?thesis by (simp add: power_int_add)
qed

lemma bitlen_powi: "0 < p \<Longrightarrow> 2 powi (bitlen p - 1) \<le> (of_int p :: rat) \<and> (of_int p :: rat) < 2 powi bitlen p"
proof -
  assume p: "0 < p"
  then have b: "2 ^ nat (bitlen p - 1) \<le> p" "p < 2 ^ nat (bitlen p)"
    using bitlen_bounds by blast+
  have "0 < bitlen p" using p
    by (metis bitlen_eq_zero_iff bitlen_nonneg linorder_not_less order_less_le)
  then have "(2 :: rat) powi (bitlen p - 1) = of_int (2 ^ nat (bitlen p - 1))"
    and "(2 :: rat) powi bitlen p = of_int (2 ^ nat (bitlen p))"
    by (simp_all add: power_int_def)
  with b show ?thesis
    by (metis of_int_le_iff of_int_less_iff)
qed

lemma exponent_bounds:
  assumes "0 < x"
  shows "2 powi exponent x \<le> x" and "x < 2 powi (exponent x + 1)"
proof -
  obtain p q where pq: "quotient_of x = (p, q)" by fastforce
  then have q: "0 < q" and x: "x = of_int p / of_int q"
    by (auto dest: quotient_of_denom_pos quotient_of_div)
  with assms have p: "0 < p" by (simp add: zero_less_divide_iff)
  define k where "k = bitlen p - bitlen q"
  have P: "2 powi (bitlen p - 1) \<le> (of_int p :: rat)" "(of_int p :: rat) < 2 powi bitlen p"
    using bitlen_powi [OF p] by auto
  have Q: "2 powi (bitlen q - 1) \<le> (of_int q :: rat)" "(of_int q :: rat) < 2 powi bitlen q"
    using bitlen_powi [OF q] by auto
  have q': "(0 :: rat) < of_int q" using q by simp
  have "2 powi (k - 1) * (of_int q :: rat) \<le> 2 powi (k - 1) * 2 powi bitlen q"
    using Q by (intro mult_left_mono) auto
  also have "\<dots> = 2 powi (bitlen p - 1)"
    by (simp add: k_def flip: power_int_add)
  finally have low: "2 powi (k - 1) \<le> x"
    using P q' by (simp add: x pos_le_divide_eq)
  have "2 powi bitlen p = (2 :: rat) powi (k + 1) * 2 powi (bitlen q - 1)"
    by (simp add: k_def flip: power_int_add)
  also have "\<dots> \<le> 2 powi (k + 1) * of_int q"
    using Q by (intro mult_left_mono) auto
  finally have high: "x < 2 powi (k + 1)"
    using P q' by (simp add: x pos_divide_less_eq)
  have e: "exponent x = (if 2 powi k \<le> x then k else k - 1)"
    by (simp add: exponent_def pq k_def)
  show "2 powi exponent x \<le> x" using low by (simp add: e)
  show "x < 2 powi (exponent x + 1)" using high by (simp add: e)
qed

lemma exponent_mono:
  assumes "0 < x" "x \<le> y"
  shows "exponent x \<le> exponent y"
proof (rule ccontr)
  assume "\<not> exponent x \<le> exponent y"
  then have "exponent y + 1 \<le> exponent x" by simp
  then have "(2 :: rat) powi (exponent y + 1) \<le> 2 powi exponent x" by (rule powi_mono)
  with exponent_bounds(1) [OF assms(1)] exponent_bounds(2) [of y] assms show False by simp
qed

lemma ulp_pos [simp]: "0 < ulp x"
  by (simp add: ulp_def)

lemma ulp_nonzero [simp]: "ulp x \<noteq> 0"
  using ulp_pos [of x] by linarith

lemma ulp_mono: "0 < x \<Longrightarrow> x \<le> y \<Longrightarrow> ulp x \<le> ulp y"
  unfolding ulp_def using exponent_mono [of x y] by (intro powi_mono) linarith

section \<open>Rounding to the grid\<close>

lemma round_half_even_of_int [simp]: "round_half_even (of_int k) = k"
  by (simp add: round_half_even_def)

lemma round_half_even_near: "\<bar>of_int (round_half_even x) - x\<bar> \<le> 1 / 2"
proof -
  have "of_int \<lfloor>x\<rfloor> \<le> x" "x < of_int \<lfloor>x\<rfloor> + 1" by linarith+
  then show ?thesis by (auto simp: round_half_even_def Let_def abs_le_iff)
qed

lemma round_half_even_floor:
  "\<lfloor>x\<rfloor> \<le> round_half_even x" "round_half_even x \<le> \<lfloor>x\<rfloor> + 1"
  by (auto simp: round_half_even_def Let_def)

lemma round_half_even_mono: "x \<le> y \<Longrightarrow> round_half_even x \<le> round_half_even y"
proof -
  assume xy: "x \<le> y"
  show ?thesis
  proof (cases "\<lfloor>x\<rfloor> = \<lfloor>y\<rfloor>")
    case True
    with xy show ?thesis by (auto simp: round_half_even_def Let_def)
  next
    case False
    with floor_mono [OF xy] have "\<lfloor>x\<rfloor> + 1 \<le> \<lfloor>y\<rfloor>" by linarith
    with round_half_even_floor [of x] round_half_even_floor [of y] show ?thesis by linarith
  qed
qed

lemma round_pos_le_grid:
  assumes "x \<le> of_int m * ulp x"
  shows "round_pos x \<le> of_int m * ulp x"
proof -
  have "x / ulp x \<le> of_int m" using assms by (simp add: pos_divide_le_eq)
  then have "round_half_even (x / ulp x) \<le> m"
    using round_half_even_mono [of "x / ulp x" "of_int m"] by simp
  then show ?thesis by (simp add: round_pos_def mult_right_mono)
qed

lemma round_pos_ge_grid:
  assumes "of_int m * ulp x \<le> x"
  shows "of_int m * ulp x \<le> round_pos x"
proof -
  have "of_int m \<le> x / ulp x" using assms by (simp add: pos_le_divide_eq)
  then have "m \<le> round_half_even (x / ulp x)"
    using round_half_even_mono [of "of_int m" "x / ulp x"] by simp
  then show ?thesis by (simp add: round_pos_def mult_right_mono)
qed

lemma round_pos_nonneg: "0 < x \<Longrightarrow> 0 \<le> round_pos x"
  using round_pos_ge_grid [of 0 x] by simp

lemma round_pos_error: "\<bar>round_pos x - x\<bar> \<le> ulp x / 2"
proof -
  have "round_pos x - x = (of_int (round_half_even (x / ulp x)) - x / ulp x) * ulp x"
    by (simp add: round_pos_def left_diff_distrib)
  then have "\<bar>round_pos x - x\<bar> = \<bar>of_int (round_half_even (x / ulp x)) - x / ulp x\<bar> * ulp x"
    by (simp add: abs_mult less_imp_le)
  also have "\<dots> \<le> 1 / 2 * ulp x"
    by (intro mult_right_mono round_half_even_near) (simp add: less_imp_le)
  finally show ?thesis by simp
qed

lemma powi_multiple_of_ulp:
  assumes "max (exponent x - 52) (-1074) \<le> s"
  obtains n :: nat where "2 powi s = of_int (2 ^ n) * ulp x"
  using powi_diff_nat [OF assms] by (auto simp: ulp_def)

lemma round_pos_mono:
  assumes "0 < x" "x \<le> y"
  shows "round_pos x \<le> round_pos y"
proof (cases "ulp x = ulp y")
  case True
  then have "x / ulp x \<le> y / ulp y" using assms by (simp add: divide_right_mono less_imp_le)
  with True show ?thesis
    using round_half_even_mono by (simp add: round_pos_def mult_right_mono less_imp_le)
next
  case False
  with ulp_mono [OF assms] have "ulp x < ulp y" by simp
  then have e: "-1074 < exponent y - 52" "exponent x < exponent y"
    unfolding ulp_def powi_less_iff by linarith+
  define B where "B = (2 :: rat) powi exponent y"
  have "x < B"
    using exponent_bounds(2) [OF assms(1)] powi_mono [of "exponent x + 1" "exponent y"] e
    by (simp add: B_def)
  moreover have "max (exponent x - 52) (-1074) \<le> exponent y" using e by linarith
  then obtain n where "B = of_int (2 ^ n) * ulp x"
    unfolding B_def by (rule powi_multiple_of_ulp)
  ultimately have "round_pos x \<le> B"
    using round_pos_le_grid [of x "2 ^ n"] by simp
  moreover have "max (exponent y - 52) (-1074) \<le> exponent y" using e by linarith
  then obtain m where "B = of_int (2 ^ m) * ulp y"
    unfolding B_def by (rule powi_multiple_of_ulp)
  then have "B \<le> round_pos y"
    using round_pos_ge_grid [of "2 ^ m" y] exponent_bounds(1) [of y] assms by (simp add: B_def)
  ultimately show ?thesis by simp
qed

lemma f64_round_0 [simp]: "f64_round 0 = 0"
  by (simp add: f64_round_def)

lemma f64_round_nonneg: "0 \<le> x \<Longrightarrow> 0 \<le> f64_round x"
  using round_pos_nonneg [of x] by (auto simp: f64_round_def)

lemma f64_round_mono: "0 \<le> x \<Longrightarrow> x \<le> y \<Longrightarrow> f64_round x \<le> f64_round y"
  using round_pos_mono [of x y] round_pos_nonneg [of y] by (auto simp: f64_round_def)

section \<open>Representable values\<close>

text \<open>The non-negative finite doubles: a significand of at most 53 bits at a binary scale.\<close>

definition f64_val :: "rat \<Rightarrow> bool" where
  "f64_val x \<longleftrightarrow> (\<exists>(j :: int) s. 0 \<le> j \<and> j \<le> 2 ^ 53 \<and> -1074 \<le> s \<and> x = of_int j * 2 powi s)"

lemma f64_valI:
  "0 \<le> j \<Longrightarrow> j \<le> 2 ^ 53 \<Longrightarrow> -1074 \<le> s \<Longrightarrow> x = of_int j * 2 powi s \<Longrightarrow> f64_val x"
  unfolding f64_val_def by blast

lemma f64_val_nonneg: "f64_val x \<Longrightarrow> 0 \<le> x"
  by (auto simp: f64_val_def less_imp_le)

lemma f64_val_of_nat: "n \<le> 2 ^ 53 \<Longrightarrow> f64_val (of_nat n)"
  by (rule f64_valI [of "int n" 0]) auto

lemma f64_round_val_pos:
  assumes "0 < x" "f64_val x"
  shows "f64_round x = x"
proof -
  obtain j :: int and s where js: "0 \<le> j" "j \<le> 2 ^ 53" "-1074 \<le> s" "x = of_int j * 2 powi s"
    using assms by (auto simp: f64_val_def)
  have P: "(2 :: rat) powi (s + 53) = 2 ^ 53 * 2 powi s"
    using powi_diff_nat [of s "s + 53"] by simp
  have "x \<le> 2 powi (s + 53)"
  proof -
    have "(of_int j :: rat) \<le> of_int (2 ^ 53)" using js(2) by (simp only: of_int_le_iff)
    then show ?thesis unfolding P js(4) by (intro mult_right_mono) simp_all
  qed
  have "exponent x \<le> s + 53"
  proof (rule ccontr)
    assume "\<not> exponent x \<le> s + 53"
    then have "(2 :: rat) powi (s + 53) < 2 powi exponent x" by (simp add: powi_less_iff)
    with exponent_bounds(1) [OF assms(1)] \<open>x \<le> 2 powi (s + 53)\<close> show False by simp
  qed
  then consider "exponent x \<le> s + 52" | "exponent x = s + 53" by linarith
  then obtain m :: int where m: "x = of_int m * ulp x"
  proof cases
    case 1
    then have "max (exponent x - 52) (-1074) \<le> s" using js by linarith
    then obtain n where "2 powi s = of_int (2 ^ n) * ulp x"
      by (rule powi_multiple_of_ulp)
    then have "x = of_int (j * 2 ^ n) * ulp x" by (simp add: js(4))
    then show ?thesis by (rule that)
  next
    case 2
    then have "x = 2 powi (s + 53)"
      using exponent_bounds(1) [OF assms(1)] \<open>x \<le> 2 powi (s + 53)\<close> by simp
    moreover have "max (exponent x - 52) (-1074) \<le> s + 53" using js 2 by linarith
    then obtain n where "2 powi (s + 53) = of_int (2 ^ n) * ulp x"
      by (rule powi_multiple_of_ulp)
    ultimately show ?thesis by (metis that)
  qed
  then have "x / ulp x = of_int m" by (simp add: field_simps)
  with m assms(1) show ?thesis by (simp add: f64_round_def round_pos_def)
qed

lemma f64_round_val: "f64_val x \<Longrightarrow> f64_round x = x"
  using f64_round_val_pos [of x] f64_val_nonneg [of x] by (cases "x = 0") auto

lemma f64_val_round:
  assumes "0 \<le> x"
  shows "f64_val (f64_round x)"
proof (cases "x = 0")
  case True
  then show ?thesis using f64_val_of_nat [of 0] by simp
next
  case False
  with assms have x: "0 < x" by simp
  define m where "m = round_half_even (x / ulp x)"
  have r: "f64_round x = of_int m * ulp x"
    using x by (simp add: f64_round_def round_pos_def m_def)
  have "0 \<le> m"
    using round_half_even_mono [of "of_int 0" "x / ulp x"] x
    unfolding round_half_even_of_int m_def by (simp add: less_imp_le)
  have "exponent x + 1 \<le> 53 + max (exponent x - 52) (-1074)" by linarith
  then have "x < 2 powi (53 + max (exponent x - 52) (-1074))"
    using exponent_bounds(2) [OF x] powi_mono by (meson less_le_trans)
  also have "\<dots> = 2 ^ 53 * ulp x"
    unfolding ulp_def by (subst power_int_add) auto
  finally have "x / ulp x \<le> of_int (2 ^ 53)" by (simp add: pos_divide_le_eq less_imp_le)
  then have "m \<le> 2 ^ 53"
    using round_half_even_mono [of "x / ulp x" "of_int (2 ^ 53)"]
    unfolding round_half_even_of_int m_def by simp
  with \<open>0 \<le> m\<close> show ?thesis
    unfolding r ulp_def
    by (rule f64_valI [where j = m and s = "max (exponent x - 52) (-1074)"]) (rule refl | simp)+
qed

lemma f64_of_nat_exact: "n \<le> 2 ^ 53 \<Longrightarrow> f64_of_nat n = of_nat n"
  unfolding f64_of_nat_def by (rule f64_round_val) (rule f64_val_of_nat)

lemma f64_val_sub_one:
  assumes "f64_val x" "1 \<le> x" "x \<le> 2 ^ 53"
  shows "f64_val (x - 1)"
proof -
  obtain j :: int and s where js: "0 \<le> j" "j \<le> 2 ^ 53" "-1074 \<le> s" "x = of_int j * 2 powi s"
    using assms by (auto simp: f64_val_def)
  show ?thesis
  proof (cases "0 \<le> s")
    case True
    then have "x = of_int (j * 2 ^ nat s)" using js by (simp add: power_int_def)
    then obtain i :: int where i: "x = of_int i" by blast
    with assms have "(of_int 1 :: rat) \<le> of_int i" "(of_int i :: rat) \<le> of_int (2 ^ 53)" by simp_all
    then have "1 \<le> i" "i \<le> 2 ^ 53" by (simp_all only: of_int_le_iff)
    with i show ?thesis by (intro f64_valI [of "i - 1" 0]) auto
  next
    case False
    then have one: "(1 :: rat) = of_int (2 ^ nat (- s)) * 2 powi s"
      using powi_diff_nat [of s 0] by simp
    have "of_int (2 ^ nat (- s)) * 2 powi s \<le> (of_int j * 2 powi s :: rat)"
      using assms(2) one js(4) by simp
    then have "(2 ^ nat (- s) :: int) \<le> j"
      by (metis mult_le_cancel_right_pos of_int_le_iff powi_pos)
    moreover have "x - 1 = of_int (j - 2 ^ nat (- s)) * 2 powi s"
      using one js(4) by (simp add: left_diff_distrib)
    moreover have "j - 2 ^ nat (- s) \<le> 2 ^ 53" using js(2) by (smt (verit) zero_le_power)
    ultimately show ?thesis using js(3) by (intro f64_valI) auto
  qed
qed

text \<open>Subtracting one token is exact: a double of at least one has \<open>1\<close> on its own grid.\<close>

lemma f64_sub_one: "f64_val x \<Longrightarrow> 1 \<le> x \<Longrightarrow> x \<le> 2 ^ 53 \<Longrightarrow> f64_sub x 1 = x - 1"
  unfolding f64_sub_def by (intro f64_round_val f64_val_sub_one)

section \<open>Rounding error\<close>

lemma ulp_le: "0 < x \<Longrightarrow> ulp x \<le> max (x / 2 ^ 52) (2 powi (-1074))"
proof -
  assume x: "0 < x"
  have "(2 :: rat) powi exponent x = 2 ^ 52 * 2 powi (exponent x - 52)"
    using powi_diff_nat [of "exponent x - 52" "exponent x"] by simp
  then have "2 powi (exponent x - 52) \<le> x / 2 ^ 52"
    using exponent_bounds(1) [OF x] by simp
  then show ?thesis
    by (cases "exponent x - 52 \<le> -1074") (auto simp: ulp_def max_def)
qed

text \<open>The relative error of one rounding, away from underflow, is at most \<open>2 powi -53\<close>.\<close>

lemma f64_round_upper:
  assumes "0 \<le> x"
  shows "f64_round x \<le> x + max (x / 2 ^ 53) (2 powi (-1075))"
proof (cases "x = 0")
  case False
  with assms have x: "0 < x" by simp
  have "f64_round x \<le> x + ulp x / 2"
    using abs_le_D1 [OF round_pos_error [of x]] x by (simp add: f64_round_def)
  moreover have "(2 :: rat) powi (-1074) / 2 = 2 powi (-1075)"
    using powi_diff_nat [of "-1075" "-1074"] by simp
  ultimately show ?thesis using ulp_le [OF x] by (auto simp: max_def split: if_splits)
qed (simp add: max_def)

lemma f64_round_rel:
  assumes "x = 0 \<or> 1 / 2 ^ 40 \<le> x"
  shows "f64_round x \<le> x * (1 + 1 / 2 ^ 53)"
proof -
  have "(2 :: rat) powi (-1075) \<le> 2 powi (-93)" by (rule powi_mono) simp
  also have "\<dots> = 1 / 2 ^ 40 / 2 ^ 53" by (simp add: power_int_def power_one_over)
  finally have tiny: "(2 :: rat) powi (-1075) \<le> 1 / 2 ^ 40 / 2 ^ 53" .
  show ?thesis
  proof (cases "x = 0")
    case False
    with assms have x: "1 / 2 ^ 40 \<le> x" by simp
    then have "1 / 2 ^ 40 / 2 ^ 53 \<le> x / 2 ^ 53" by (rule divide_right_mono) simp
    with tiny have "max (x / 2 ^ 53) (2 powi (-1075)) = x / 2 ^ 53" by (simp only: max_def) auto
    moreover have "0 \<le> x" using x by (rule order_trans [rotated]) simp
    ultimately show ?thesis using f64_round_upper [of x] by (simp only: distrib_left) simp
  qed simp
qed

section \<open>Durations\<close>

lemma f64_of_nat_nonneg [simp]: "0 \<le> f64_of_nat n"
  unfolding f64_of_nat_def by (rule f64_round_nonneg) simp

lemma f64_of_nat_mono: "m \<le> n \<Longrightarrow> f64_of_nat m \<le> f64_of_nat n"
  unfolding f64_of_nat_def by (rule f64_round_mono) simp_all

lemma f64_of_nat_rel: "f64_of_nat n \<le> of_nat n * (1 + 1 / 2 ^ 53)"
proof -
  have "(of_nat n :: rat) = 0 \<or> 1 / 2 ^ 40 \<le> (of_nat n :: rat)"
  proof (cases n)
    case (Suc m)
    then have "(1 :: rat) \<le> of_nat n" by simp
    then show ?thesis by simp
  qed simp
  then show ?thesis unfolding f64_of_nat_def by (rule f64_round_rel)
qed

text \<open>The fractional part of \<open>as_secs_f64\<close>.\<close>

lemma subsec_eq: "f64_div (f64_of_nat (d mod 1000000000)) (f64_of_nat 1000000000) =
    f64_round (of_nat (d mod 1000000000) / 1000000000)"
proof -
  have "d mod 1000000000 < 1000000000" by simp
  then have "d mod 1000000000 \<le> 2 ^ 53" by (rule order_trans [OF less_imp_le]) simp
  then show ?thesis by (simp add: f64_div_def f64_of_nat_exact)
qed

lemma as_secs_f64_eq: "as_secs_f64 d =
    f64_round (f64_of_nat (d div 1000000000) + f64_round (of_nat (d mod 1000000000) / 1000000000))"
  by (simp only: as_secs_f64_def subsec_eq f64_add_def)

lemma as_secs_f64_0 [simp]: "as_secs_f64 0 = 0"
  by (simp add: as_secs_f64_eq f64_of_nat_def)

lemma as_secs_f64_nonneg [simp]: "0 \<le> as_secs_f64 d"
  unfolding as_secs_f64_eq
  by (intro f64_round_nonneg add_nonneg_nonneg) (simp_all add: f64_round_nonneg)

text \<open>Whole seconds convert exactly.\<close>

lemma as_secs_f64_whole: "s \<le> 2 ^ 53 \<Longrightarrow> as_secs_f64 (s * 1000000000) = of_nat s"
  by (simp add: as_secs_f64_eq f64_of_nat_exact f64_round_val f64_val_of_nat)

text \<open>The conversion never overstates a duration by more than three roundings' relative error.\<close>

lemma as_secs_f64_rel:
  "as_secs_f64 d \<le> of_nat d / 1000000000 * (1 + 1 / 2 ^ 53) ^ 2"
proof -
  define u :: rat where "u = 1 + 1 / 2 ^ 53"
  have u: "1 \<le> u" "0 \<le> u" by (simp_all add: u_def)
  define s f where "s = d div 1000000000" and "f = d mod 1000000000"
  have d: "(of_nat d :: rat) / 1000000000 = of_nat s + of_nat f / 1000000000"
  proof -
    have "(of_nat d :: rat) = of_nat (s * 1000000000 + f)" by (simp add: s_def f_def)
    then show ?thesis by (simp add: add_divide_distrib)
  qed
  have ff: "(of_nat f :: rat) / 1000000000 = 0 \<or> 1 / 2 ^ 40 \<le> (of_nat f :: rat) / 1000000000"
  proof (cases f)
    case (Suc m)
    then have "(1 :: rat) \<le> of_nat f" by simp
    then show ?thesis by simp
  qed simp
  have A: "f64_of_nat s + f64_round (of_nat f / 1000000000) \<le> of_nat d / 1000000000 * u"
    using f64_of_nat_rel [of s] f64_round_rel [OF ff] unfolding d u_def
    by (simp only: distrib_right)
  have A0: "0 \<le> f64_of_nat s + f64_round (of_nat f / 1000000000)"
    by (intro add_nonneg_nonneg) (simp_all add: f64_round_nonneg)
  have "as_secs_f64 d \<le> f64_round (of_nat d / 1000000000 * u)"
    unfolding as_secs_f64_eq s_def [symmetric] f_def [symmetric] by (rule f64_round_mono [OF A0 A])
  also have "\<dots> \<le> of_nat d / 1000000000 * u * u"
  proof -
    have "(of_nat d :: rat) / 1000000000 * u = 0 \<or> 1 / 2 ^ 40 \<le> (of_nat d :: rat) / 1000000000 * u"
    proof (cases d)
      case (Suc m)
      then have "(1 :: rat) \<le> of_nat d" by simp
      then have "1 / 2 ^ 40 * 1 \<le> (of_nat d :: rat) / 1000000000 * u"
        using u by (intro mult_mono) simp_all
      then show ?thesis by simp
    qed simp
    from f64_round_rel [OF this] show ?thesis unfolding u_def [symmetric] .
  qed
  finally show ?thesis by (simp add: u_def power2_eq_square mult.assoc)
qed

text \<open>Longer durations convert to no smaller doubles (below \<open>2 ^ 53\<close> seconds).\<close>

lemma as_secs_f64_mono:
  assumes "d \<le> e" and "e < 2 ^ 53 * 1000000000"
  shows "as_secs_f64 d \<le> as_secs_f64 e"
proof -
  define s f s' f' where "s = d div 1000000000" and "f = d mod 1000000000"
    and "s' = e div 1000000000" and "f' = e mod 1000000000"
  have s: "s \<le> s'" using assms by (simp add: s_def s'_def div_le_mono)
  have f: "f < 1000000000" by (simp add: f_def)
  have "s' < 2 ^ 53" using assms(2) unfolding s'_def by (simp add: less_mult_imp_div_less)
  with s have ex: "f64_of_nat s = of_nat s" "f64_of_nat s' = of_nat s'"
    by (simp_all add: f64_of_nat_exact)
  have nn: "0 \<le> (of_nat s :: rat) + f64_round (of_nat f / 1000000000)"
    by (intro add_nonneg_nonneg) (simp_all add: f64_round_nonneg)
  have "of_nat s + f64_round (of_nat f / 1000000000) \<le>
      (of_nat s' :: rat) + f64_round (of_nat f' / 1000000000)"
  proof (cases "s = s'")
    case True
    then have "f \<le> f'" using assms(1)
      by (metis f'_def f_def s'_def s_def add_le_cancel_left mult_div_mod_eq)
    then have "f64_round (of_nat f / 1000000000) \<le> f64_round (of_nat f' / 1000000000)"
      by (intro f64_round_mono divide_right_mono) simp_all
    with True show ?thesis by simp
  next
    case False
    with s have "(of_nat (s + 1) :: rat) \<le> of_nat s'" by (simp only: of_nat_le_iff)
    moreover have "f64_round (of_nat f / 1000000000) \<le> f64_round 1"
      using f by (intro f64_round_mono) simp_all
    moreover have "f64_round 1 = 1" using f64_round_val [OF f64_val_of_nat [of 1]] by simp
    moreover have "0 \<le> f64_round (of_nat f' / 1000000000)" by (rule f64_round_nonneg) simp
    ultimately show ?thesis by simp
  qed
  then show ?thesis
    unfolding as_secs_f64_eq s_def [symmetric] f_def [symmetric] s'_def [symmetric]
      f'_def [symmetric] ex
    by (rule f64_round_mono [OF nn])
qed

end
