(* ===== verification/Token_Bucket.thy ===== *)
theory Token_Bucket
  imports Float64
begin

text \<open>
  One bucket of \<open>crypto/src/limits.rs\<close>: \<open>Bucket\<close>, \<open>RateLimiter::take\<close> and the test that
  eviction applies to a bucket. The locale \<open>token_bucket\<close> is the contract between a bucket and
  its capacity and refill rate; its lemmas bound what a bucket hands out. It is interpreted on
  the two pairs of constants that \<open>default_limiter\<close> sets up.
\<close>

record Bucket =
  tokens :: rat
  bucket_last :: instant

text \<open>\<open>saturating_duration_since\<close> is subtraction of natural numbers: a clock that went back
  yields a zero interval.\<close>

definition elapsed_secs :: "Bucket \<Rightarrow> instant \<Rightarrow> rat" where
  "elapsed_secs b now = as_secs_f64 (now - bucket_last b)"

definition refilled :: "Bucket \<Rightarrow> instant \<Rightarrow> rat \<Rightarrow> rat \<Rightarrow> rat" where
  "refilled b now cap refill = min (f64_add (tokens b) (f64_mul (elapsed_secs b now) refill)) cap"

definition take_token :: "Bucket \<Rightarrow> instant \<Rightarrow> rat \<Rightarrow> rat \<Rightarrow> bool \<times> Bucket" where
  "take_token b now cap refill =
     (let b = \<lparr>tokens = refilled b now cap refill, bucket_last = now\<rparr>
      in if 1 \<le> tokens b then (True, b\<lparr>tokens := f64_sub (tokens b) 1\<rparr>) else (False, b))"

text \<open>The closure of \<open>retain\<close>: the bucket has not refilled to the capacity yet.\<close>

definition below_capacity :: "Bucket \<Rightarrow> instant \<Rightarrow> rat \<Rightarrow> rat \<Rightarrow> bool" where
  "below_capacity b now cap refill \<longleftrightarrow>
     f64_add (tokens b) (f64_mul (elapsed_secs b now) refill) < cap"

definition bucket_ok :: "rat \<Rightarrow> Bucket \<Rightarrow> bool" where
  "bucket_ok cap b \<longleftrightarrow> f64_val (tokens b) \<and> tokens b \<le> cap"

text \<open>The number of tokens a bucket hands out when it is asked at the given instants.\<close>

fun taken :: "rat \<Rightarrow> rat \<Rightarrow> Bucket \<Rightarrow> instant list \<Rightarrow> nat" where
  "taken cap refill b [] = 0"
| "taken cap refill b (t # ts) =
     (let (ok, b') = take_token b t cap refill in of_bool ok + taken cap refill b' ts)"

text \<open>The bucket after those requests.\<close>

definition bucket_after :: "rat \<Rightarrow> rat \<Rightarrow> Bucket \<Rightarrow> instant list \<Rightarrow> Bucket" where
  "bucket_after cap refill = foldl (\<lambda>b t. snd (take_token b t cap refill))"

text \<open>How far the clock climbs from \<open>b\<close> on over the readings \<open>ts\<close>. Where they are in order it is the time
  that passed; a reading that is late is climbed over again.\<close>

fun climb :: "instant \<Rightarrow> instant list \<Rightarrow> nat" where
  "climb b [] = 0"
| "climb b (t # ts) = (t - b) + climb t ts"

lemma climb_sorted: "sorted (b # ts) \<Longrightarrow> climb b ts = last (b # ts) - b"
proof (induction ts arbitrary: b)
  case (Cons t ts)
  have "t \<le> last (t # ts)" using Cons.prems by (cases ts rule: rev_cases) (auto simp: sorted_append)
  with Cons show ?case by simp
qed simp

lemma climb_le: "sorted (b # ts) \<Longrightarrow> \<forall>t \<in> set ts. t \<le> e \<Longrightarrow> b \<le> e \<Longrightarrow> climb b ts \<le> e - b"
  by (simp only: climb_sorted) (cases ts rule: rev_cases, auto intro: diff_le_mono)

lemma taken_snoc: "taken cap refill b (ts @ [t]) = taken cap refill b ts +
    of_bool (fst (take_token (bucket_after cap refill b ts) t cap refill))"
  by (induction ts arbitrary: b) (simp_all add: bucket_after_def split_beta Let_def)

lemma bucket_after_snoc: "bucket_after cap refill b (ts @ [t]) =
    snd (take_token (bucket_after cap refill b ts) t cap refill)"
  by (simp add: bucket_after_def)

lemma bucket_last_take [simp]: "bucket_last (snd (take_token b now cap refill)) = now"
  by (simp add: take_token_def Let_def)

lemma fst_take [simp]: "fst (take_token b now cap refill) \<longleftrightarrow> 1 \<le> refilled b now cap refill"
  by (simp add: take_token_def Let_def)

lemma elapsed_secs_nonneg [simp]: "0 \<le> elapsed_secs b now"
  by (simp add: elapsed_secs_def)

lemma elapsed_secs_past [simp]: "now \<le> bucket_last b \<Longrightarrow> elapsed_secs b now = 0"
  by (simp add: elapsed_secs_def)

locale token_bucket =
  fixes cap :: rat and refill :: rat
  assumes refill_nonneg: "0 \<le> refill"
    and cap_val: "f64_val cap"
    and cap_bound: "cap \<le> 2 ^ 53"
begin

lemma credit_nonneg: "0 \<le> f64_mul (elapsed_secs b now) refill"
  unfolding f64_mul_def by (intro f64_round_nonneg mult_nonneg_nonneg refill_nonneg) simp

lemma refilled_val:
  assumes "bucket_ok cap b"
  shows "f64_val (refilled b now cap refill)" and "refilled b now cap refill \<le> cap"
    and "tokens b \<le> refilled b now cap refill"
proof -
  have t: "f64_val (tokens b)" "tokens b \<le> cap" using assms by (auto simp: bucket_ok_def)
  have le: "tokens b \<le> tokens b + f64_mul (elapsed_secs b now) refill"
    using credit_nonneg by simp
  have "f64_val (f64_add (tokens b) (f64_mul (elapsed_secs b now) refill))"
    unfolding f64_add_def
    by (intro f64_val_round add_nonneg_nonneg credit_nonneg f64_val_nonneg t)
  then show "f64_val (refilled b now cap refill)"
    using cap_val by (simp add: refilled_def min_def)
  show "refilled b now cap refill \<le> cap" by (simp add: refilled_def)
  have "tokens b = f64_round (tokens b)" using t by (simp add: f64_round_val)
  also have "\<dots> \<le> f64_add (tokens b) (f64_mul (elapsed_secs b now) refill)"
    unfolding f64_add_def by (rule f64_round_mono [OF f64_val_nonneg [OF t(1)] le])
  finally show "tokens b \<le> refilled b now cap refill"
    using t(2) by (simp add: refilled_def)
qed

lemma take_tokens:
  assumes "bucket_ok cap b"
  shows "tokens (snd (take_token b now cap refill)) =
    refilled b now cap refill - of_bool (1 \<le> refilled b now cap refill)"
  using refilled_val [OF assms, of now] cap_bound
  by (auto simp: take_token_def Let_def intro: f64_sub_one)

lemma take_ok:
  assumes "bucket_ok cap b"
  shows "bucket_ok cap (snd (take_token b now cap refill))"
proof -
  note r = refilled_val [OF assms, of now]
  have "f64_val (refilled b now cap refill - 1)" if "1 \<le> refilled b now cap refill"
    using that r cap_bound by (intro f64_val_sub_one) auto
  with r show ?thesis by (auto simp: bucket_ok_def take_tokens [OF assms])
qed

text \<open>Without time or without refill, a bucket gains nothing.\<close>

lemma refilled_frozen:
  assumes "bucket_ok cap b" and "now \<le> bucket_last b \<or> refill = 0"
  shows "refilled b now cap refill = tokens b"
proof -
  have "f64_mul (elapsed_secs b now) refill = 0"
    using assms(2) by (auto simp: f64_mul_def)
  with assms(1) show ?thesis by (simp add: refilled_def f64_add_def bucket_ok_def f64_round_val)
qed

lemma taken_frozen:
  assumes "bucket_ok cap b" and "refill = 0 \<or> set ts \<subseteq> {bucket_last b}"
  shows "taken cap refill b ts = min (length ts) (nat \<lfloor>tokens b\<rfloor>)"
  using assms
proof (induction ts arbitrary: b)
  case Nil
  then show ?case by simp
next
  case (Cons t ts)
  define b' where "b' = snd (take_token b t cap refill)"
  have r: "refilled b t cap refill = tokens b"
    using Cons.prems by (intro refilled_frozen) auto
  have b': "bucket_ok cap b'" "bucket_last b' = t"
    "tokens b' = tokens b - of_bool (1 \<le> tokens b)"
    using take_ok take_tokens Cons.prems(1) by (simp_all add: b'_def r)
  have "taken cap refill b (t # ts) = of_bool (1 \<le> tokens b) + taken cap refill b' ts"
    by (simp add: b'_def r split_beta)
  also have "taken cap refill b' ts = min (length ts) (nat \<lfloor>tokens b'\<rfloor>)"
    using Cons.prems b' by (intro Cons.IH) auto
  finally have eq: "taken cap refill b (t # ts) =
      of_bool (1 \<le> tokens b) + min (length ts) (nat \<lfloor>tokens b'\<rfloor>)" .
  show ?case
  proof (cases "1 \<le> tokens b")
    case True
    then have "nat \<lfloor>tokens b\<rfloor> = Suc (nat \<lfloor>tokens b'\<rfloor>)"
      using b'(3) by simp linarith
    with True eq show ?thesis by simp
  next
    case False
    then have "nat \<lfloor>tokens b\<rfloor> = 0" by simp
    with False eq b'(3) show ?thesis by simp
  qed
qed

text \<open>One step gains at most the credited time, up to a rounding slack.\<close>

lemma refilled_gain:
  assumes "bucket_ok cap b" and "1 \<le> cap"
  shows "refilled b now cap refill \<le>
    tokens b + elapsed_secs b now * refill * (1 + 1 / 2 ^ 53) + cap / 2 ^ 52"
proof -
  define x where "x = elapsed_secs b now * refill"
  define y where "y = tokens b + f64_mul (elapsed_secs b now) refill"
  have x: "0 \<le> x" using refill_nonneg by (simp add: x_def)
  have y: "0 \<le> y" using credit_nonneg assms by (simp add: y_def bucket_ok_def f64_val_nonneg)
  have "(2 :: rat) powi (-1075) \<le> 2 powi (-54)" by (rule powi_mono) simp
  also have "\<dots> = 1 / 2 ^ 54" by (simp add: power_int_def power_one_over)
  also have "\<dots> \<le> cap / 2 ^ 54" using assms(2) by (rule divide_right_mono) simp
  finally have tiny: "(2 :: rat) powi (-1075) \<le> cap / 2 ^ 54" .
  define s where "s = cap / 2 ^ 54"
  have s: "cap / 2 ^ 53 = 2 * s" "cap / 2 ^ 52 = 4 * s" "0 \<le> s"
    using assms(2) by (simp_all add: s_def)
  have mul: "f64_mul (elapsed_secs b now) refill \<le> x * (1 + 1 / 2 ^ 53) + s"
  proof -
    have "max (x / 2 ^ 53) (2 powi (-1075)) \<le> x / 2 ^ 53 + s"
      using tiny x s(3) unfolding s_def [symmetric] by (intro max.boundedI) auto
    then have "f64_round x \<le> x + (x / 2 ^ 53 + s)"
      using f64_round_upper [OF x] by linarith
    moreover have "x * (1 + 1 / 2 ^ 53) + s = x + (x / 2 ^ 53 + s)"
      by (simp only: distrib_left times_divide_eq_right mult_1_right add.assoc)
    ultimately show ?thesis unfolding f64_mul_def x_def [symmetric] by simp
  qed
  have "refilled b now cap refill \<le> y + 2 * s"
  proof (cases "y \<le> cap")
    case True
    then have "y / 2 ^ 53 \<le> cap / 2 ^ 53" by (rule divide_right_mono) simp
    then have "max (y / 2 ^ 53) (2 powi (-1075)) \<le> 2 * s"
      using tiny s unfolding s_def [symmetric] by (intro max.boundedI) auto
    then have "f64_round y \<le> y + 2 * s" using f64_round_upper [OF y] by linarith
    then show ?thesis by (simp add: refilled_def f64_add_def y_def [symmetric] min_le_iff_disj)
  next
    case False
    then show ?thesis using s(3) by (simp add: refilled_def min_le_iff_disj)
  qed
  with mul s show ?thesis unfolding y_def x_def [symmetric] by linarith
qed

text \<open>What a bucket hands out, whatever the order of the clock readings: what it held, the credit for
  the time that the readings climb (with three roundings' relative error) and a rounding slack per
  call.\<close>

lemma taken_climb:
  assumes "bucket_ok cap b" and "1 \<le> cap"
  shows "of_nat (taken cap refill b ts) \<le> tokens b
    + of_nat (climb (bucket_last b) ts) / 1000000000 * refill * (1 + 1 / 2 ^ 53) ^ 3
    + of_nat (length ts) * (cap / 2 ^ 52)"
  using assms(1)
proof (induction ts arbitrary: b)
  case Nil
  then show ?case by (simp add: bucket_ok_def f64_val_nonneg)
next
  case (Cons t ts)
  define u :: rat where "u = 1 + 1 / 2 ^ 53"
  have u: "0 \<le> u" by (simp add: u_def)
  define b' where "b' = snd (take_token b t cap refill)"
  define r where "r = refilled b t cap refill"
  define s where "s = cap / 2 ^ 52"
  have b': "bucket_ok cap b'" "bucket_last b' = t" "tokens b' = r - of_bool (1 \<le> r)"
    using take_ok take_tokens Cons.prems by (simp_all add: b'_def r_def)
  have IH: "of_nat (taken cap refill b' ts) \<le> tokens b' + of_nat (climb t ts) / 1000000000 * refill * u ^ 3
      + of_nat (length ts) * s"
    using Cons.IH [OF b'(1)] by (simp add: b'(2) u_def s_def)
  have split: "(of_nat (taken cap refill b (t # ts)) :: rat) = of_bool (1 \<le> r) + of_nat (taken cap refill b' ts)"
    by (simp add: b'_def r_def split_beta)
  have "elapsed_secs b t * refill * u \<le> of_nat (t - bucket_last b) / 1000000000 * u ^ 2 * refill * u"
    using as_secs_f64_rel [of "t - bucket_last b"] refill_nonneg u
    unfolding elapsed_secs_def u_def [symmetric] by (intro mult_right_mono)
  also have "\<dots> = of_nat (t - bucket_last b) / 1000000000 * refill * u ^ 3"
    by (simp add: power3_eq_cube power2_eq_square mult_ac)
  finally have credit: "elapsed_secs b t * refill * u \<le>
      of_nat (t - bucket_last b) / 1000000000 * refill * u ^ 3" .
  have gain: "r \<le> tokens b + elapsed_secs b t * refill * u + s"
    unfolding r_def u_def s_def by (rule refilled_gain [OF Cons.prems assms(2)])
  have "of_nat (climb (bucket_last b) (t # ts)) / 1000000000 * refill * u ^ 3 =
      of_nat (t - bucket_last b) / 1000000000 * refill * u ^ 3
      + of_nat (climb t ts) / 1000000000 * refill * u ^ 3"
    by (simp only: climb.simps of_nat_add add_divide_distrib distrib_right)
  moreover have "of_nat (length (t # ts)) * s = s + of_nat (length ts) * s"
    by (simp add: distrib_right)
  ultimately have "of_nat (taken cap refill b (t # ts)) \<le> tokens b
      + of_nat (climb (bucket_last b) (t # ts)) / 1000000000 * refill * u ^ 3 + of_nat (length (t # ts)) * s"
    using split IH credit gain b'(3) by linarith
  then show ?case unfolding u_def s_def .
qed

lemma taken_bound:
  assumes "bucket_ok cap b" and "1 \<le> cap" and "sorted (bucket_last b # ts)"
    and "bucket_last b \<le> e" and "\<forall>t \<in> set ts. t \<le> e"
  shows "of_nat (taken cap refill b ts) \<le> tokens b
    + of_nat (e - bucket_last b) / 1000000000 * refill * (1 + 1 / 2 ^ 53) ^ 3
    + of_nat (length ts) * (cap / 2 ^ 52)"
proof -
  have "(of_nat (climb (bucket_last b) ts) :: rat) \<le> of_nat (e - bucket_last b)"
    unfolding of_nat_le_iff by (rule climb_le [OF assms(3,5,4)])
  then have "of_nat (climb (bucket_last b) ts) / 1000000000 * refill * (1 + 1 / 2 ^ 53) ^ 3
      \<le> of_nat (e - bucket_last b) / 1000000000 * refill * (1 + 1 / 2 ^ 53) ^ 3"
    using refill_nonneg by (intro mult_right_mono divide_right_mono) simp_all
  with taken_climb [OF assms(1,2), of ts] show ?thesis by linarith
qed

lemma full_refilled: "tokens b = cap \<Longrightarrow> refilled b now cap refill = cap"
  using refilled_val [of b now] cap_val by (simp add: bucket_ok_def)

text \<open>A bucket that eviction may drop at \<open>now\<close> would be full at any later call: dropping it and
  starting afresh gives the same answer. (The bound on the interval is 285 million years.)\<close>

lemma dropped_is_full:
  assumes "bucket_ok cap b" and "\<not> below_capacity b now cap refill" and "now \<le> later"
    and "later - bucket_last b < 2 ^ 53 * 1000000000"
  shows "refilled b later cap refill = cap"
proof -
  have "elapsed_secs b now \<le> elapsed_secs b later"
    unfolding elapsed_secs_def using assms by (intro as_secs_f64_mono) auto
  then have "f64_mul (elapsed_secs b now) refill \<le> f64_mul (elapsed_secs b later) refill"
    unfolding f64_mul_def using refill_nonneg
    by (intro f64_round_mono mult_nonneg_nonneg mult_right_mono) simp_all
  moreover have "0 \<le> tokens b + f64_mul (elapsed_secs b now) refill"
    using credit_nonneg assms(1) by (simp add: bucket_ok_def f64_val_nonneg)
  ultimately have "f64_add (tokens b) (f64_mul (elapsed_secs b now) refill) \<le>
      f64_add (tokens b) (f64_mul (elapsed_secs b later) refill)"
    unfolding f64_add_def by (intro f64_round_mono) simp_all
  with assms(2) show ?thesis by (simp add: below_capacity_def refilled_def)
qed

lemma fresh_ok: "bucket_ok cap \<lparr>tokens = cap, bucket_last = now\<rparr>"
  by (simp add: bucket_ok_def cap_val)

lemma fresh_refilled [simp]: "refilled \<lparr>tokens = cap, bucket_last = now\<rparr> now cap refill = cap"
  using refilled_frozen [OF fresh_ok, of now now] by simp

end

end
