(* ===== verification/Rate_Limiter.thy ===== *)
theory Rate_Limiter
  imports Token_Bucket "HOL-Library.Multiset"
begin

text \<open>
  \<open>crypto/src/limits.rs\<close>: \<open>RateLimiter\<close> with its two bucket maps, eviction and \<open>allow\<close>. A
  \<open>HashMap\<close> is an association list with distinct keys; the order in which \<open>iter\<close> visits it is
  the parameter \<open>hash_order\<close>, of which only that it permutes the entries is assumed. The clock
  is the argument \<open>now\<close>: the instant that \<open>clock.now()\<close> returned to this call. \<open>allow\<close> is
  composed of its two critical sections, which \<open>Rate_Limiter_Threads\<close> interleaves.
\<close>

type_synonym bucket_key = "string \<times> string"

type_synonym hash_order = "(bucket_key \<times> Bucket) list \<Rightarrow> (bucket_key \<times> Bucket) list"

record RateLimiter =
  buckets :: "(bucket_key \<times> Bucket) list"
  global :: "(string \<times> Bucket) list"
  capacity :: rat
  refill_per_sec :: rat
  global_capacity :: rat
  global_refill_per_sec :: rat
  max_buckets :: nat
  hash_order :: hash_order

definition new_limiter :: "u32 \<Rightarrow> rat \<Rightarrow> hash_order \<Rightarrow> RateLimiter" where
  "new_limiter cap refill order =
     \<lparr>buckets = [], global = [],
      capacity = f64_of_nat (unat cap),
      refill_per_sec = refill,
      global_capacity = f64_mul (f64_of_nat (unat cap)) 50,
      global_refill_per_sec = f64_mul refill 50,
      max_buckets = 10000,
      hash_order = order\<rparr>"

definition default_limiter :: "hash_order \<Rightarrow> RateLimiter" where
  "default_limiter order = new_limiter 120 20 order"

text \<open>\<open>entry(k).or_insert(d)\<close>: the bucket that is then updated in place.\<close>

definition entry_or :: "'k \<Rightarrow> Bucket \<Rightarrow> ('k \<times> Bucket) list \<Rightarrow> Bucket" where
  "entry_or k d m = (case map_of m k of Some b \<Rightarrow> b | None \<Rightarrow> d)"

text \<open>The first critical section: the ceiling of the operation across all tenants.\<close>

definition global_section :: "RateLimiter \<Rightarrow> instant \<Rightarrow> string \<Rightarrow> bool \<times> RateLimiter" where
  "global_section l now op =
     (let b = entry_or op \<lparr>tokens = global_capacity l, bucket_last = now\<rparr> (global l);
          (ok, b') = take_token b now (global_capacity l) (global_refill_per_sec l)
      in (ok, l\<lparr>global := AList.update op b' (global l)\<rparr>))"

text \<open>The keys in the order in which the least recently used ones are dropped.\<close>

definition lru_keys :: "RateLimiter \<Rightarrow> (bucket_key \<times> Bucket) list \<Rightarrow> bucket_key list" where
  "lru_keys l bs =
     map snd (sort_key fst (map (\<lambda>(k, b). (bucket_last b, k)) (hash_order l bs)))"

definition evict :: "RateLimiter \<Rightarrow> instant \<Rightarrow> (bucket_key \<times> Bucket) list \<Rightarrow> (bucket_key \<times> Bucket) list" where
  "evict l now bs =
     (if max_buckets l \<le> length bs then
        let bs = filter (\<lambda>(_, b). below_capacity b now (capacity l) (refill_per_sec l)) bs
        in if max_buckets l \<le> length bs then
             let target = max_buckets l div 2
             in fold AList.delete (take (length bs - target) (lru_keys l bs)) bs
           else bs
      else bs)"

text \<open>The second critical section: eviction and the bucket of the tenant.\<close>

definition tenant_section :: "RateLimiter \<Rightarrow> instant \<Rightarrow> string \<Rightarrow> string \<Rightarrow> bool \<times> RateLimiter" where
  "tenant_section l now tenant op =
     (let bs = evict l now (buckets l);
          key = (tenant, op);
          b = entry_or key \<lparr>tokens = capacity l, bucket_last = now\<rparr> bs;
          (ok, b') = take_token b now (capacity l) (refill_per_sec l)
      in (ok, l\<lparr>buckets := AList.update key b' bs\<rparr>))"

definition allow :: "RateLimiter \<Rightarrow> instant \<Rightarrow> string \<Rightarrow> string \<Rightarrow> bool \<times> RateLimiter" where
  "allow l now tenant op =
     (let (ok, l) = global_section l now op
      in if \<not> ok then (False, l) else tenant_section l now tenant op)"

text \<open>A sequence of calls, and the number of those on \<open>op\<close> that were admitted.\<close>

type_synonym call = "instant \<times> string \<times> string"

fun run_calls :: "RateLimiter \<Rightarrow> call list \<Rightarrow> bool list \<times> RateLimiter" where
  "run_calls l [] = ([], l)"
| "run_calls l ((now, tenant, op) # cs) =
     (let (ok, l') = allow l now tenant op; (oks, l'') = run_calls l' cs in (ok # oks, l''))"

fun admitted :: "string \<Rightarrow> RateLimiter \<Rightarrow> call list \<Rightarrow> nat" where
  "admitted op l [] = 0"
| "admitted op l ((now, tenant, o') # cs) =
     (let (ok, l') = allow l now tenant o' in of_bool (ok \<and> o' = op) + admitted op l' cs)"

section \<open>The invariant\<close>

definition buckets_ok :: "rat \<Rightarrow> ('k \<times> Bucket) list \<Rightarrow> bool" where
  "buckets_ok cap m \<longleftrightarrow> distinct (map fst m) \<and> (\<forall>(k, b) \<in> set m. bucket_ok cap b)"

definition limiter_ok :: "RateLimiter \<Rightarrow> bool" where
  "limiter_ok l \<longleftrightarrow>
     token_bucket (capacity l) (refill_per_sec l) \<and>
     token_bucket (global_capacity l) (global_refill_per_sec l) \<and>
     0 < max_buckets l \<and> length (buckets l) \<le> max_buckets l \<and>
     buckets_ok (capacity l) (buckets l) \<and> buckets_ok (global_capacity l) (global l) \<and>
     (\<forall>xs. mset (hash_order l xs) = mset xs)"

text \<open>The fields that no call changes.\<close>

definition same_config :: "RateLimiter \<Rightarrow> RateLimiter \<Rightarrow> bool" where
  "same_config l l' \<longleftrightarrow>
     capacity l' = capacity l \<and> refill_per_sec l' = refill_per_sec l \<and>
     global_capacity l' = global_capacity l \<and> global_refill_per_sec l' = global_refill_per_sec l \<and>
     max_buckets l' = max_buckets l \<and> hash_order l' = hash_order l"

lemma same_config_refl [simp]: "same_config l l"
  by (simp add: same_config_def)

lemma same_config_trans: "same_config a b \<Longrightarrow> same_config b c \<Longrightarrow> same_config a c"
  by (simp add: same_config_def)

lemma same_config_sections:
  "same_config l (snd (global_section l now op))"
  "same_config l (snd (tenant_section l now tenant op))"
  by (auto simp: same_config_def global_section_def tenant_section_def Let_def split_beta)

lemma same_config_allow: "same_config l (snd (allow l now tenant op))"
  using same_config_sections same_config_trans
  by (fastforce simp: allow_def Let_def split_beta)

subsection \<open>Maps of buckets\<close>

lemma buckets_okD: "buckets_ok cap m \<Longrightarrow> map_of m k = Some b \<Longrightarrow> bucket_ok cap b"
  by (auto simp: buckets_ok_def dest: map_of_SomeD)

lemma buckets_ok_filter: "buckets_ok cap m \<Longrightarrow> buckets_ok cap (filter P m)"
  by (auto simp: buckets_ok_def distinct_map_filter)

lemma buckets_ok_update:
  assumes "buckets_ok cap m" and "bucket_ok cap b"
  shows "buckets_ok cap (AList.update k b m)"
proof -
  have "set (AList.update k b m) \<subseteq> insert (k, b) (set m)" by (induction m) auto
  with assms show ?thesis by (auto simp: buckets_ok_def distinct_update)
qed

lemma entry_or_ok:
  "buckets_ok cap m \<Longrightarrow> bucket_ok cap d \<Longrightarrow> bucket_ok cap (entry_or k d m)"
  by (auto simp: entry_or_def buckets_okD split: option.splits)

lemma length_update_le: "length (AList.update k v m) \<le> Suc (length m)"
  by (induction m) auto

lemma fold_delete: "fold AList.delete ks m = filter (\<lambda>p. fst p \<notin> set ks) m"
proof (induction ks arbitrary: m)
  case (Cons k ks)
  then show ?case
    by (auto simp: AList.delete_eq filter_filter split_beta intro!: filter_cong)
qed simp

lemma length_filter_keys:
  assumes "distinct (map fst m)" and "distinct ks" and "set ks \<subseteq> fst ` set m"
  shows "length (filter (\<lambda>p. fst p \<notin> set ks) m) = length m - length ks"
proof -
  have "length (filter (\<lambda>p. fst p \<notin> set ks) m) =
      card (set (map fst (filter (\<lambda>p. fst p \<notin> set ks) m)))"
    using assms(1) by (metis distinct_card distinct_map_filter length_map)
  also have "set (map fst (filter (\<lambda>p. fst p \<notin> set ks) m)) = fst ` set m - set ks"
    by auto
  also have "card (fst ` set m - set ks) = card (fst ` set m) - card (set ks)"
    using assms(3) by (intro card_Diff_subset) auto
  also have "card (fst ` set m) = length m"
    using assms(1) by (metis distinct_card length_map set_map)
  finally show ?thesis using assms(2) by (simp add: distinct_card)
qed

subsection \<open>Eviction\<close>

lemma mset_order_keys:
  assumes "mset (hash_order l bs) = mset bs"
  shows "mset (lru_keys l bs) = mset (map fst bs)"
proof -
  have "mset (lru_keys l bs) = image_mset (snd \<circ> (\<lambda>(k, b). (bucket_last b, k))) (mset (hash_order l bs))"
    by (simp add: lru_keys_def image_mset.compositionality mset_map)
  also have "snd \<circ> (\<lambda>(k, b). (bucket_last b, k)) = (fst :: bucket_key \<times> Bucket \<Rightarrow> bucket_key)"
    by auto
  finally show ?thesis by (simp add: assms)
qed

lemma evict_cases:
  obtains (keep) "evict l now bs = bs" "length bs < max_buckets l"
  | (lossless) "evict l now bs = filter (\<lambda>(_, b). below_capacity b now (capacity l) (refill_per_sec l)) bs"
      "length (evict l now bs) < max_buckets l" "max_buckets l \<le> length bs"
  | (lru) live where
      "live = filter (\<lambda>(_, b). below_capacity b now (capacity l) (refill_per_sec l)) bs"
      "max_buckets l \<le> length live"
      "evict l now bs = filter (\<lambda>p. fst p \<notin>
         set (take (length live - max_buckets l div 2) (lru_keys l live))) live"
proof (cases "max_buckets l \<le> length bs")
  case True
  define live where "live = filter (\<lambda>(_, b). below_capacity b now (capacity l) (refill_per_sec l)) bs"
  show ?thesis
  proof (cases "max_buckets l \<le> length live")
    case live: True
    show ?thesis
      by (rule lru [OF live_def live]) (use True live in \<open>simp add: evict_def Let_def live_def fold_delete\<close>)
  next
    case False
    with True show ?thesis by (intro lossless) (simp_all add: evict_def Let_def live_def)
  qed
qed (auto intro: keep simp: evict_def)

lemma length_evict_lru:
  assumes "distinct (map fst live)" and "mset (hash_order l live) = mset live"
    and "max_buckets l \<le> length live"
  shows "length (filter (\<lambda>p. fst p \<notin>
    set (take (length live - max_buckets l div 2) (lru_keys l live))) live) = max_buckets l div 2"
proof -
  note m = mset_order_keys [OF assms(2)]
  have d: "distinct (lru_keys l live)" using assms(1) m mset_eq_imp_distinct_iff by blast
  have s: "set (lru_keys l live) = fst ` set live" using mset_eq_setD [OF m] by simp
  have n: "length (lru_keys l live) = length live" using m mset_eq_length by fastforce
  show ?thesis
    using assms(1,3) d s n
    by (subst length_filter_keys) (auto dest: in_set_takeD)
qed

text \<open>Least recently used first: a victim is never younger than a survivor.\<close>

lemma lru_order:
  assumes "distinct (map fst live)" and "mset (hash_order l live) = mset live"
    and "(k, b) \<in> set live" and "k \<in> set (take n (lru_keys l live))"
    and "(k', b') \<in> set live" and "k' \<notin> set (take n (lru_keys l live))"
  shows "bucket_last b \<le> bucket_last b'"
proof -
  define S where "S = sort_key fst (map (\<lambda>(k, b). (bucket_last b, k)) (hash_order l live))"
  have keys: "take n (lru_keys l live) = map snd (take n S)"
    by (simp add: lru_keys_def S_def take_map)
  have set_S: "set S = (\<lambda>(k, b). (bucket_last b, k)) ` set live"
    using mset_eq_setD [OF assms(2)] by (simp add: S_def)
  have "\<exists>t. (t, k) \<in> set (take n S)" using assms(4) by (auto simp: keys)
  then obtain t where t: "(t, k) \<in> set (take n S)" by blast
  then have "(t, k) \<in> set S" by (rule in_set_takeD)
  then have "t = bucket_last b"
    using assms(1,3) by (auto simp: set_S dest: eq_key_imp_eq_value)
  moreover have "(bucket_last b', k') \<in> set S" using assms(5) by (force simp: set_S)
  then have "(bucket_last b', k') \<in> set (drop n S)"
    using assms(6) by (metis Un_iff append_take_drop_id image_eqI keys list.set_map set_append snd_conv)
  moreover have "sorted (map fst (take n S @ drop n S))" by (simp add: S_def)
  then have "\<forall>x \<in> set (take n S). \<forall>y \<in> set (drop n S). fst x \<le> fst y"
    unfolding map_append sorted_append by simp
  ultimately show ?thesis using t by fastforce
qed

lemma buckets_ok_evict:
  assumes "buckets_ok cap bs"
  shows "buckets_ok cap (evict l now bs)"
  using assms by (cases rule: evict_cases [of l now bs]) (auto intro: buckets_ok_filter)

lemma length_evict:
  assumes "limiter_ok l" and "buckets_ok cap bs"
  shows "length (evict l now bs) < max_buckets l"
proof (cases rule: evict_cases [of l now bs])
  case (lru live)
  have "distinct (map fst live)"
    using assms(2) by (simp add: lru(1) buckets_ok_def distinct_map_filter)
  then have "length (evict l now bs) = max_buckets l div 2"
    unfolding lru(3) using lru(2) assms(1) by (intro length_evict_lru) (simp_all add: limiter_ok_def)
  with assms(1) show ?thesis by (simp add: limiter_ok_def)
qed auto

subsection \<open>Every section keeps the invariant\<close>

lemma limiter_ok_global_section:
  assumes "limiter_ok l"
  shows "limiter_ok (snd (global_section l now op))"
proof -
  have tb: "token_bucket (global_capacity l) (global_refill_per_sec l)"
    using assms by (simp add: limiter_ok_def)
  define b where "b = entry_or op \<lparr>tokens = global_capacity l, bucket_last = now\<rparr> (global l)"
  have "bucket_ok (global_capacity l) b"
    unfolding b_def using assms
    by (intro entry_or_ok token_bucket.fresh_ok [OF tb]) (simp add: limiter_ok_def)
  then have "bucket_ok (global_capacity l)
      (snd (take_token b now (global_capacity l) (global_refill_per_sec l)))"
    by (rule token_bucket.take_ok [OF tb])
  with assms show ?thesis
    by (simp add: limiter_ok_def global_section_def Let_def split_beta b_def buckets_ok_update)
qed

lemma limiter_ok_tenant_section:
  assumes "limiter_ok l"
  shows "limiter_ok (snd (tenant_section l now tenant op))"
proof -
  have tb: "token_bucket (capacity l) (refill_per_sec l)"
    and ok: "buckets_ok (capacity l) (buckets l)"
    using assms by (simp_all add: limiter_ok_def)
  define bs where "bs = evict l now (buckets l)"
  define b where "b = entry_or (tenant, op) \<lparr>tokens = capacity l, bucket_last = now\<rparr> bs"
  define b' where "b' = snd (take_token b now (capacity l) (refill_per_sec l))"
  have bs: "buckets_ok (capacity l) bs" unfolding bs_def using ok by (rule buckets_ok_evict)
  then have "bucket_ok (capacity l) b"
    unfolding b_def by (intro entry_or_ok token_bucket.fresh_ok [OF tb])
  then have "bucket_ok (capacity l) b'"
    unfolding b'_def by (rule token_bucket.take_ok [OF tb])
  moreover have "length (AList.update (tenant, op) b' bs) \<le> max_buckets l"
    using length_update_le [of "(tenant, op)" b' bs] length_evict [OF assms ok, of now]
    by (simp add: bs_def)
  ultimately show ?thesis
    using assms bs
    by (simp add: limiter_ok_def tenant_section_def Let_def split_beta bs_def b_def b'_def
        buckets_ok_update)
qed

lemma limiter_ok_allow_step:
  "limiter_ok l \<Longrightarrow> limiter_ok (snd (allow l now tenant op))"
  using limiter_ok_global_section limiter_ok_tenant_section
  by (auto simp: allow_def Let_def split_beta)

lemma limiter_ok_run: "limiter_ok l \<Longrightarrow> limiter_ok (snd (run_calls l cs))"
  by (induction cs arbitrary: l) (auto simp: split_beta limiter_ok_allow_step)

subsection \<open>The constructor\<close>

lemma u32_le_53: "unat (c :: u32) \<le> 2 ^ 53" "50 * unat (c :: u32) \<le> 2 ^ 53"
proof -
  have "unat c < 2 ^ LENGTH(32)" by (rule unsigned_less)
  then show "unat c \<le> 2 ^ 53" "50 * unat c \<le> 2 ^ 53" by simp_all
qed

lemma new_capacity [simp]:
  "capacity (new_limiter c r order) = of_nat (unat c)"
  "global_capacity (new_limiter c r order) = of_nat (50 * unat c)"
proof -
  show "capacity (new_limiter c r order) = of_nat (unat c)"
    using u32_le_53 by (simp add: new_limiter_def f64_of_nat_exact)
  have "f64_round (of_nat (50 * unat c)) = of_nat (50 * unat c)"
    by (intro f64_round_val f64_val_of_nat u32_le_53)
  then show "global_capacity (new_limiter c r order) = of_nat (50 * unat c)"
    using u32_le_53 by (simp add: new_limiter_def f64_of_nat_exact f64_mul_def mult.commute)
qed

lemma new_empty [simp]:
  "buckets (new_limiter c r order) = []" "global (new_limiter c r order) = []"
  "max_buckets (new_limiter c r order) = 10000"
  "refill_per_sec (new_limiter c r order) = r"
  "global_refill_per_sec (new_limiter c r order) = f64_mul r 50"
  "hash_order (new_limiter c r order) = order"
  by (simp_all add: new_limiter_def)

lemma limiter_ok_new:
  assumes "0 \<le> r" and "\<forall>xs. mset (order xs) = mset xs"
  shows "limiter_ok (new_limiter c r order)"
  using assms f64_val_of_nat [OF u32_le_53(1)] f64_val_of_nat [OF u32_le_53(2)]
    u32_le_53 [of c, THEN of_nat_mono [where 'a = rat]]
  by (auto simp: limiter_ok_def token_bucket_def buckets_ok_def f64_mul_def f64_round_nonneg)

section \<open>The ceiling of an operation\<close>

text \<open>The bucket that a call at \<open>now\<close> on \<open>op\<close> finds, and the instants of the calls on \<open>op\<close>.\<close>

definition global_bucket :: "RateLimiter \<Rightarrow> instant \<Rightarrow> string \<Rightarrow> Bucket" where
  "global_bucket l now op =
     entry_or op \<lparr>tokens = global_capacity l, bucket_last = now\<rparr> (global l)"

definition tenant_bucket :: "RateLimiter \<Rightarrow> instant \<Rightarrow> string \<Rightarrow> string \<Rightarrow> Bucket" where
  "tenant_bucket l now tenant op =
     entry_or (tenant, op) \<lparr>tokens = capacity l, bucket_last = now\<rparr> (buckets l)"

definition op_times :: "string \<Rightarrow> call list \<Rightarrow> instant list" where
  "op_times op cs = map fst (filter (\<lambda>(_, _, o'). o' = op) cs)"

lemma op_times_simps [simp]:
  "op_times op [] = []"
  "op_times op ((now, tenant, o') # cs) = (if o' = op then now # op_times op cs else op_times op cs)"
  by (simp_all add: op_times_def)

lemma entry_or_update [simp]:
  "entry_or k d (AList.update k' b m) = (if k = k' then b else entry_or k d m)"
  by (simp add: entry_or_def update_conv')

lemma global_section_eq:
  "fst (global_section l now op) \<longleftrightarrow>
     1 \<le> refilled (global_bucket l now op) now (global_capacity l) (global_refill_per_sec l)"
  "global (snd (global_section l now op)) = AList.update op
     (snd (take_token (global_bucket l now op) now (global_capacity l) (global_refill_per_sec l))) (global l)"
  "buckets (snd (global_section l now op)) = buckets l"
  by (simp_all add: global_section_def global_bucket_def Let_def split_beta)

lemma tenant_section_eq:
  assumes "evict l now (buckets l) = bs"
  shows "fst (tenant_section l now tenant op) \<longleftrightarrow> 1 \<le> refilled
      (entry_or (tenant, op) \<lparr>tokens = capacity l, bucket_last = now\<rparr> bs) now (capacity l) (refill_per_sec l)"
    and "buckets (snd (tenant_section l now tenant op)) = AList.update (tenant, op)
      (snd (take_token (entry_or (tenant, op) \<lparr>tokens = capacity l, bucket_last = now\<rparr> bs) now
        (capacity l) (refill_per_sec l))) bs"
    and "global (snd (tenant_section l now tenant op)) = global l"
  by (simp_all add: tenant_section_def Let_def split_beta assms)

lemma global_allow:
  "global (snd (allow l now tenant op)) = AList.update op
     (snd (take_token (global_bucket l now op) now (global_capacity l) (global_refill_per_sec l))) (global l)"
  by (simp add: allow_def Let_def split_beta global_section_eq tenant_section_eq(3) [OF refl])

lemma allow_passes_global:
  "fst (allow l now tenant op) \<Longrightarrow>
     1 \<le> refilled (global_bucket l now op) now (global_capacity l) (global_refill_per_sec l)"
  by (simp add: allow_def Let_def split_beta global_section_eq split: if_splits)

lemma config_allow [simp]:
  "capacity (snd (allow l now tenant op)) = capacity l"
  "refill_per_sec (snd (allow l now tenant op)) = refill_per_sec l"
  "global_capacity (snd (allow l now tenant op)) = global_capacity l"
  "global_refill_per_sec (snd (allow l now tenant op)) = global_refill_per_sec l"
  "max_buckets (snd (allow l now tenant op)) = max_buckets l"
  "hash_order (snd (allow l now tenant op)) = hash_order l"
  using same_config_allow [of l now tenant op] by (simp_all add: same_config_def)

lemma global_bucket_allow:
  "global_bucket (snd (allow l now tenant o')) t op =
     (if o' = op then snd (take_token (global_bucket l now op) now (global_capacity l) (global_refill_per_sec l))
      else global_bucket l t op)"
  unfolding global_bucket_def config_allow global_allow entry_or_update by (simp add: global_bucket_def)

lemma global_bucket_ok:
  assumes "limiter_ok l"
  shows "bucket_ok (global_capacity l) (global_bucket l now op)"
proof -
  have "token_bucket (global_capacity l) (global_refill_per_sec l)"
    using assms by (simp add: limiter_ok_def)
  then show ?thesis
    unfolding global_bucket_def using assms
    by (intro entry_or_ok token_bucket.fresh_ok) (auto simp: limiter_ok_def)
qed

text \<open>What is admitted on \<open>op\<close>, whoever asks, is no more than its one global bucket hands out.\<close>

lemma admitted_le_taken:
  "admitted op l cs \<le> taken (global_capacity l) (global_refill_per_sec l)
     (global_bucket l (hd (op_times op cs)) op) (op_times op cs)"
proof (induction cs arbitrary: l)
  case (Cons c cs)
  obtain now tenant o' where c: "c = (now, tenant, o')" by (cases c)
  define l' where "l' = snd (allow l now tenant o')"
  have step: "admitted op l (c # cs) = of_bool (fst (allow l now tenant o') \<and> o' = op) + admitted op l' cs"
    by (simp add: c l'_def split_beta)
  have IH: "admitted op l' cs \<le> taken (global_capacity l) (global_refill_per_sec l)
      (global_bucket l' (hd (op_times op cs)) op) (op_times op cs)"
    using Cons.IH [of l'] by (simp add: l'_def)
  show ?case
  proof (cases "o' = op")
    case True
    have "global_bucket l' (hd (op_times op cs)) op =
        snd (take_token (global_bucket l now op) now (global_capacity l) (global_refill_per_sec l))"
      by (simp add: l'_def True global_bucket_allow)
    with IH step True allow_passes_global [of l now tenant op] show ?thesis
      by (auto simp: c split_beta)
  next
    case False
    then have "global_bucket l' (hd (op_times op cs)) op = global_bucket l (hd (op_times op cs)) op"
      by (simp add: l'_def global_bucket_allow)
    with IH step False show ?thesis by (simp add: c)
  qed
qed simp

section \<open>Frozen time\<close>

text \<open>Without refill, or at one instant, the ceiling is a plain counter.\<close>

lemma global_bucket_new [simp]:
  "global_bucket (new_limiter c r order) now op =
     \<lparr>tokens = of_nat (50 * unat c), bucket_last = now\<rparr>"
  by (simp add: global_bucket_def entry_or_def)

lemma tenant_bucket_new [simp]:
  "tenant_bucket (new_limiter c r order) now tenant op =
     \<lparr>tokens = of_nat (unat c), bucket_last = now\<rparr>"
  by (simp add: tenant_bucket_def entry_or_def)

lemma frozen_global:
  assumes "limiter_ok l" and "global_refill_per_sec l = 0 \<or> now \<le> bucket_last (global_bucket l now op)"
  shows "refilled (global_bucket l now op) now (global_capacity l) (global_refill_per_sec l) =
      tokens (global_bucket l now op)"
    and "tokens (global_bucket (snd (allow l now tenant op)) t op) =
      tokens (global_bucket l now op) - of_bool (1 \<le> tokens (global_bucket l now op))"
    and "bucket_last (global_bucket (snd (allow l now tenant op)) t op) = now"
proof -
  have tb: "token_bucket (global_capacity l) (global_refill_per_sec l)"
    using assms by (simp add: limiter_ok_def)
  note ok = global_bucket_ok [OF assms(1), of now op]
  show r: "refilled (global_bucket l now op) now (global_capacity l) (global_refill_per_sec l) =
      tokens (global_bucket l now op)"
    using assms(2) by (intro token_bucket.refilled_frozen [OF tb ok]) auto
  show "tokens (global_bucket (snd (allow l now tenant op)) t op) =
      tokens (global_bucket l now op) - of_bool (1 \<le> tokens (global_bucket l now op))"
    by (simp add: global_bucket_allow token_bucket.take_tokens [OF tb ok] r)
qed (simp add: global_bucket_allow)

text \<open>At one instant every call on \<open>op\<close>, admitted or not, costs the operation a token.\<close>

lemma global_drain:
  assumes "limiter_ok l" and "\<forall>(t, _, o') \<in> set cs. t = now \<and> o' = op"
    and "tokens (global_bucket l now op) = of_nat m" and "bucket_last (global_bucket l now op) = now"
  shows "tokens (global_bucket (snd (run_calls l cs)) now op) = of_nat (m - length cs)"
    and "bucket_last (global_bucket (snd (run_calls l cs)) now op) = now"
proof -
  have "tokens (global_bucket (snd (run_calls l cs)) now op) = of_nat (m - length cs) \<and>
      bucket_last (global_bucket (snd (run_calls l cs)) now op) = now"
    using assms
  proof (induction cs arbitrary: l m)
    case (Cons c cs)
    obtain tenant where c: "c = (now, tenant, op)" using Cons.prems(2) by auto
    define l' where "l' = snd (allow l now tenant op)"
    have "tokens (global_bucket l' now op) = of_nat (m - 1)"
      using frozen_global(2) [OF Cons.prems(1), of now op tenant now] Cons.prems(3,4)
      by (cases m) (auto simp: l'_def)
    moreover have "bucket_last (global_bucket l' now op) = now"
      unfolding l'_def by (rule frozen_global(3) [OF Cons.prems(1)]) (simp add: Cons.prems(4))
    moreover have "limiter_ok l'"
      unfolding l'_def by (rule limiter_ok_allow_step [OF Cons.prems(1)])
    ultimately show ?case
      using Cons.IH [of l' "m - 1"] Cons.prems(2) by (simp add: c l'_def split_beta)
  qed simp
  then show "tokens (global_bucket (snd (run_calls l cs)) now op) = of_nat (m - length cs)"
    and "bucket_last (global_bucket (snd (run_calls l cs)) now op) = now" by auto
qed

subsection \<open>Keys\<close>

lemma evict_keys: "fst ` set (evict l now bs) \<subseteq> fst ` set bs"
  by (cases rule: evict_cases [of l now bs]) auto

lemma allow_keys: "fst ` set (buckets (snd (allow l now tenant op))) \<subseteq>
    insert (tenant, op) (fst ` set (buckets l))"
  using evict_keys [of "snd (global_section l now op)" now "buckets l"]
  by (auto simp: allow_def Let_def split_beta global_section_eq(3) tenant_section_eq(2) [OF refl]
      dom_update subset_iff)

lemma entry_or_fresh: "k \<notin> fst ` set m \<Longrightarrow> entry_or k d m = d"
  by (simp add: entry_or_def map_of_eq_None_iff [THEN iffD2] split: option.splits)

lemma config_global_section [simp]:
  "capacity (snd (global_section l now op)) = capacity l"
  "refill_per_sec (snd (global_section l now op)) = refill_per_sec l"
  "max_buckets (snd (global_section l now op)) = max_buckets l"
  using same_config_sections(1) [of l now op] by (simp_all add: same_config_def)

text \<open>A tenant that was never seen passes its own bucket: its call is decided by the ceiling.\<close>

lemma allow_new_tenant:
  assumes "limiter_ok l" and "1 \<le> capacity l" and "(tenant, op) \<notin> fst ` set (buckets l)"
  shows "fst (allow l now tenant op) \<longleftrightarrow>
    1 \<le> refilled (global_bucket l now op) now (global_capacity l) (global_refill_per_sec l)"
proof -
  define l1 where "l1 = snd (global_section l now op)"
  have tb: "token_bucket (capacity l) (refill_per_sec l)"
    using assms(1) by (simp add: limiter_ok_def)
  have "(tenant, op) \<notin> fst ` set (evict l1 now (buckets l1))"
    using evict_keys [of l1 now "buckets l1"] assms(3) by (auto simp: l1_def global_section_eq)
  then have "fst (tenant_section l1 now tenant op)"
    using assms(2) unfolding tenant_section_eq(1) [OF refl]
    by (simp add: entry_or_fresh l1_def token_bucket.fresh_refilled [OF tb])
  then show ?thesis by (simp add: allow_def Let_def split_beta global_section_eq l1_def)
qed

lemma admitted_new_tenants:
  assumes "limiter_ok l" and "1 \<le> capacity l" and "distinct (map (fst \<circ> snd) cs)"
    and "\<forall>(t, tenant, o') \<in> set cs. o' = op \<and> (tenant, op) \<notin> fst ` set (buckets l)"
  shows "admitted op l cs = taken (global_capacity l) (global_refill_per_sec l)
     (global_bucket l (hd (op_times op cs)) op) (op_times op cs)"
  using assms
proof (induction cs arbitrary: l)
  case (Cons c cs)
  obtain now tenant where c: "c = (now, tenant, op)"
    and new: "(tenant, op) \<notin> fst ` set (buckets l)"
    using Cons.prems(4) by (cases c) auto
  define l' where "l' = snd (allow l now tenant op)"
  have "admitted op l' cs = taken (global_capacity l) (global_refill_per_sec l)
      (global_bucket l' (hd (op_times op cs)) op) (op_times op cs)"
  proof -
    have "\<forall>(t, tenant', o') \<in> set cs. o' = op \<and> (tenant', op) \<notin> fst ` set (buckets l')"
      using Cons.prems(3,4) allow_keys [of l now tenant op] by (fastforce simp: c l'_def image_iff)
    then show ?thesis
      using Cons.IH [of l'] Cons.prems(1-3) limiter_ok_allow_step [of l] by (simp add: c l'_def)
  qed
  then show ?case
    using allow_new_tenant [OF Cons.prems(1,2) new, of now]
    by (simp add: c l'_def split_beta global_bucket_allow)
qed simp

subsection \<open>One tenant, one operation\<close>

lemma tenant_bucket_ok:
  assumes "limiter_ok l"
  shows "bucket_ok (capacity l) (tenant_bucket l now tenant op)"
proof -
  have "token_bucket (capacity l) (refill_per_sec l)" using assms by (simp add: limiter_ok_def)
  then show ?thesis
    unfolding tenant_bucket_def using assms
    by (intro entry_or_ok token_bucket.fresh_ok) (auto simp: limiter_ok_def)
qed

lemma evict_keep: "length bs < max_buckets l \<Longrightarrow> evict l now bs = bs"
  by (simp add: evict_def)

text \<open>Below the bound on the map, a call is the conjunction of its two buckets.\<close>

lemma allow_no_evict:
  assumes "length (buckets l) < max_buckets l"
  shows "fst (allow l now tenant op) \<longleftrightarrow>
      1 \<le> refilled (global_bucket l now op) now (global_capacity l) (global_refill_per_sec l) \<and>
      1 \<le> refilled (tenant_bucket l now tenant op) now (capacity l) (refill_per_sec l)"
    and "buckets (snd (allow l now tenant op)) =
      (if 1 \<le> refilled (global_bucket l now op) now (global_capacity l) (global_refill_per_sec l)
       then AList.update (tenant, op)
         (snd (take_token (tenant_bucket l now tenant op) now (capacity l) (refill_per_sec l))) (buckets l)
       else buckets l)"
proof -
  have e: "evict (snd (global_section l now op)) now (buckets (snd (global_section l now op))) = buckets l"
    using assms by (simp add: evict_keep global_section_eq)
  show "fst (allow l now tenant op) \<longleftrightarrow>
      1 \<le> refilled (global_bucket l now op) now (global_capacity l) (global_refill_per_sec l) \<and>
      1 \<le> refilled (tenant_bucket l now tenant op) now (capacity l) (refill_per_sec l)"
    by (simp add: allow_def Let_def split_beta global_section_eq(1) tenant_section_eq(1) [OF e]
        tenant_bucket_def)
  show "buckets (snd (allow l now tenant op)) =
      (if 1 \<le> refilled (global_bucket l now op) now (global_capacity l) (global_refill_per_sec l)
       then AList.update (tenant, op)
         (snd (take_token (tenant_bucket l now tenant op) now (capacity l) (refill_per_sec l))) (buckets l)
       else buckets l)"
    by (simp add: allow_def Let_def split_beta global_section_eq(1,3) tenant_section_eq(2) [OF e]
        tenant_bucket_def)
qed

lemma length_one_key:
  assumes "limiter_ok l" and "fst ` set (buckets l) \<subseteq> {k}"
  shows "length (buckets l) \<le> 1"
proof -
  have "length (buckets l) = card (fst ` set (buckets l))"
    using assms(1) by (metis buckets_ok_def distinct_card length_map limiter_ok_def set_map)
  also have "\<dots> \<le> card {k}" using assms(2) by (intro card_mono) auto
  finally show ?thesis by simp
qed

lemma run_one_key:
  assumes "limiter_ok l" and "fst ` set (buckets l) \<subseteq> {(tenant, op)}" and "1 < max_buckets l"
    and "tokens (global_bucket l now op) = of_nat g" and "bucket_last (global_bucket l now op) = now"
    and "tokens (tenant_bucket l now tenant op) = of_nat b"
    and "bucket_last (tenant_bucket l now tenant op) = now" and "b \<le> g"
  shows "fst (run_calls l (replicate n (now, tenant, op))) = map (\<lambda>i. i < b) [0..<n]"
  using assms
proof (induction n arbitrary: l g b)
  case (Suc n)
  define l' where "l' = snd (allow l now tenant op)"
  note ok = Suc.prems(1)
  have tb: "token_bucket (capacity l) (refill_per_sec l)" using ok by (simp add: limiter_ok_def)
  have short: "length (buckets l) < max_buckets l"
    using length_one_key [OF ok Suc.prems(2)] Suc.prems(3) by simp
  have G: "refilled (global_bucket l now op) now (global_capacity l) (global_refill_per_sec l) = of_nat g"
    using frozen_global(1) [OF ok, of now op] Suc.prems(4,5) by simp
  have B: "refilled (tenant_bucket l now tenant op) now (capacity l) (refill_per_sec l) = of_nat b"
    using token_bucket.refilled_frozen [OF tb tenant_bucket_ok [OF ok]] Suc.prems(6,7) by simp
  note step = allow_no_evict [OF short, of now tenant op, unfolded G B]
  have take: "tokens (snd (take_token (tenant_bucket l now tenant op) now (capacity l) (refill_per_sec l))) =
      of_nat (b - 1)"
    using token_bucket.take_tokens [OF tb tenant_bucket_ok [OF ok], of now tenant op now] B
    by (cases b) auto
  have "tokens (tenant_bucket l' now tenant op) = of_nat (b - 1)"
    and "bucket_last (tenant_bucket l' now tenant op) = now"
    using step(2) take Suc.prems(6-8)
    by (auto simp: tenant_bucket_def l'_def split: if_splits)
  moreover have "tokens (global_bucket l' now op) = of_nat (g - 1)"
    using frozen_global(2) [OF ok, of now op tenant now] Suc.prems(4,5)
    by (cases g) (auto simp: l'_def)
  moreover have "bucket_last (global_bucket l' now op) = now"
    unfolding l'_def by (rule frozen_global(3) [OF ok]) (simp add: Suc.prems(5))
  moreover have "fst ` set (buckets l') \<subseteq> {(tenant, op)}"
    using allow_keys [of l now tenant op] Suc.prems(2) by (auto simp: l'_def)
  moreover have "limiter_ok l'" unfolding l'_def by (rule limiter_ok_allow_step [OF ok])
  ultimately have "fst (run_calls l' (replicate n (now, tenant, op))) = map (\<lambda>i. i < b - 1) [0..<n]"
    using Suc.prems(3,8) by (intro Suc.IH) (auto simp: l'_def)
  moreover have "map (\<lambda>i. i < b) [0..<Suc n] = (0 < b) # map (\<lambda>i. i < b - 1) [0..<n]"
    by (simp only: upt_conv_Cons [OF zero_less_Suc] list.map map_Suc_upt [symmetric] map_map) auto
  moreover have "fst (allow l now tenant op) = (0 < b)"
    using step(1) Suc.prems(8) by auto
  ultimately show ?case by (simp add: l'_def split_beta)
qed simp

end
