(* ===== verification/Rate_Limiter_Spec.thy ===== *)
theory Rate_Limiter_Spec
  imports Rate_Limiter
begin

text \<open>
  What the limiter promises, without its memory management: a bucket per operation and a bucket
  per (tenant, operation), none ever dropped. The refinement relation: a bucket that the
  concrete map holds is the abstract one, and one that it does not hold is either absent from
  the abstract map too, or full there at every later instant up to the horizon.
\<close>

record SpecLimiter =
  spec_global :: "string \<rightharpoonup> Bucket"
  spec_buckets :: "bucket_key \<rightharpoonup> Bucket"

definition spec_entry :: "('k \<rightharpoonup> Bucket) \<Rightarrow> 'k \<Rightarrow> Bucket \<Rightarrow> Bucket" where
  "spec_entry m k d = (case m k of Some b \<Rightarrow> b | None \<Rightarrow> d)"

definition spec_allow ::
    "RateLimiter \<Rightarrow> SpecLimiter \<Rightarrow> instant \<Rightarrow> string \<Rightarrow> string \<Rightarrow> bool \<times> SpecLimiter" where
  "spec_allow cfg a now tenant op =
     (let (okg, g) = take_token
            (spec_entry (spec_global a) op \<lparr>tokens = global_capacity cfg, bucket_last = now\<rparr>)
            now (global_capacity cfg) (global_refill_per_sec cfg);
          a = a\<lparr>spec_global := (spec_global a)(op \<mapsto> g)\<rparr>
      in if \<not> okg then (False, a)
         else
           let (ok, b) = take_token
                 (spec_entry (spec_buckets a) (tenant, op) \<lparr>tokens = capacity cfg, bucket_last = now\<rparr>)
                 now (capacity cfg) (refill_per_sec cfg)
           in (ok, a\<lparr>spec_buckets := (spec_buckets a)((tenant, op) \<mapsto> b)\<rparr>))"

text \<open>285 million years, in nanoseconds: below it \<open>as_secs_f64\<close> is monotone.\<close>

definition horizon :: nat where
  "horizon = 2 ^ 53 * 1000000000"

definition full_from :: "rat \<Rightarrow> rat \<Rightarrow> instant \<Rightarrow> Bucket \<Rightarrow> bool" where
  "full_from cap r now b \<longleftrightarrow> (\<forall>t. now \<le> t \<and> t < horizon \<longrightarrow> refilled b t cap r = cap)"

fun matches :: "rat \<Rightarrow> rat \<Rightarrow> instant \<Rightarrow> Bucket option \<Rightarrow> Bucket option \<Rightarrow> bool" where
  "matches cap r now (Some b) s = (s = Some b)"
| "matches cap r now None None = True"
| "matches cap r now None (Some b) = full_from cap r now b"

definition stands_for ::
    "rat \<Rightarrow> rat \<Rightarrow> instant \<Rightarrow> ('k \<times> Bucket) list \<Rightarrow> ('k \<rightharpoonup> Bucket) \<Rightarrow> bool" where
  "stands_for cap r now bs m \<longleftrightarrow> (\<forall>k. matches cap r now (map_of bs k) (m k))"

definition refines :: "RateLimiter \<Rightarrow> instant \<Rightarrow> SpecLimiter \<Rightarrow> bool" where
  "refines l now a \<longleftrightarrow>
     spec_global a = map_of (global l) \<and>
     stands_for (capacity l) (refill_per_sec l) now (buckets l) (spec_buckets a)"

text \<open>Eviction stays lossless as long as fewer than \<open>max_buckets\<close> buckets are below capacity.\<close>

definition room_at :: "RateLimiter \<Rightarrow> instant \<Rightarrow> bool" where
  "room_at l now \<longleftrightarrow>
     length (filter (\<lambda>(_, b). below_capacity b now (capacity l) (refill_per_sec l)) (buckets l))
       < max_buckets l"

section \<open>Simulation\<close>

lemma take_token_cong:
  "refilled b now cap r = refilled b' now cap r \<Longrightarrow> take_token b now cap r = take_token b' now cap r"
  by (simp add: take_token_def)

lemma map_of_filter_value:
  "distinct (map fst m) \<Longrightarrow> map_of (filter (\<lambda>(_, b). P b) m) k =
     (case map_of m k of Some b \<Rightarrow> if P b then Some b else None | None \<Rightarrow> None)"
  by (induction m) (auto split: option.splits simp: map_of_eq_None_iff dest: map_of_SomeD)

lemma matches_later: "matches cap r now c s \<Longrightarrow> now \<le> later \<Longrightarrow> matches cap r later c s"
  by (cases c; cases s) (auto simp: full_from_def)

lemma stands_for_later:
  "stands_for cap r now bs m \<Longrightarrow> now \<le> later \<Longrightarrow> stands_for cap r later bs m"
  by (auto simp: stands_for_def intro: matches_later)

lemma stands_for_update:
  "stands_for cap r now bs m \<Longrightarrow> stands_for cap r now (AList.update k b bs) (m(k \<mapsto> b))"
  by (simp add: stands_for_def update_conv')

lemma stands_for_evict:
  assumes "limiter_ok l" and "stands_for (capacity l) (refill_per_sec l) now (buckets l) m"
    and "room_at l now"
  shows "stands_for (capacity l) (refill_per_sec l) now (evict l now (buckets l)) m"
proof (cases rule: evict_cases [of l now "buckets l"])
  case lossless
  have tb: "token_bucket (capacity l) (refill_per_sec l)"
    and ok: "buckets_ok (capacity l) (buckets l)" using assms by (simp_all add: limiter_ok_def)
  have drop: "full_from (capacity l) (refill_per_sec l) now b"
    if "map_of (buckets l) k = Some b" "\<not> below_capacity b now (capacity l) (refill_per_sec l)" for k b
    unfolding full_from_def horizon_def
  proof (intro allI impI)
    fix t assume "now \<le> t \<and> t < 2 ^ 53 * 1000000000"
    then show "refilled b t (capacity l) (refill_per_sec l) = capacity l"
      by (intro token_bucket.dropped_is_full [OF tb buckets_okD [OF ok that(1)] that(2)]) auto
  qed
  have "matches (capacity l) (refill_per_sec l) now (map_of (evict l now (buckets l)) k) (m k)" for k
  proof -
    have m: "matches (capacity l) (refill_per_sec l) now (map_of (buckets l) k) (m k)"
      using assms(2) unfolding stands_for_def by blast
    have e: "map_of (evict l now (buckets l)) k =
        (case map_of (buckets l) k of
           Some b \<Rightarrow> if below_capacity b now (capacity l) (refill_per_sec l) then Some b else None
         | None \<Rightarrow> None)"
      using lossless(1) ok by (simp add: buckets_ok_def map_of_filter_value)
    show ?thesis
      using m drop [of k] unfolding e by (cases "map_of (buckets l) k") auto
  qed
  then show ?thesis by (simp add: stands_for_def)
next
  case (lru live)
  with assms(3) show ?thesis by (simp add: room_at_def)
qed (simp add: assms(2))

lemma stands_for_entry:
  assumes "token_bucket cap r" and "stands_for cap r now bs m" and "now < horizon"
  shows "take_token (entry_or k \<lparr>tokens = cap, bucket_last = now\<rparr> bs) now cap r =
    take_token (spec_entry m k \<lparr>tokens = cap, bucket_last = now\<rparr>) now cap r"
proof -
  have "matches cap r now (map_of bs k) (m k)" using assms(2) by (simp add: stands_for_def)
  then show ?thesis
    using token_bucket.fresh_refilled [OF assms(1), of now] assms(3)
    by (intro take_token_cong, cases "map_of bs k"; cases "m k")
      (simp_all add: entry_or_def spec_entry_def full_from_def)
qed

lemma allow_simulates:
  assumes "limiter_ok l" and "refines l t0 a" and "t0 \<le> now" and "now < horizon" and "room_at l now"
  shows "fst (allow l now tenant op) = fst (spec_allow l a now tenant op)"
    and "refines (snd (allow l now tenant op)) now (snd (spec_allow l a now tenant op))"
proof -
  define l1 where "l1 = snd (global_section l now op)"
  define bs where "bs = evict l1 now (buckets l1)"
  define b where "b = entry_or (tenant, op) \<lparr>tokens = capacity l, bucket_last = now\<rparr> bs"
  have tb: "token_bucket (capacity l) (refill_per_sec l)"
    using assms by (simp add: limiter_ok_def)
  have l1: "limiter_ok l1" "capacity l1 = capacity l" "refill_per_sec l1 = refill_per_sec l"
    "buckets l1 = buckets l" "max_buckets l1 = max_buckets l"
    using limiter_ok_global_section [OF assms(1)] by (simp_all add: l1_def global_section_eq)
  have sf: "stands_for (capacity l) (refill_per_sec l) now (buckets l) (spec_buckets a)"
    using assms(2,3) by (auto simp: refines_def intro: stands_for_later)
  then have bs: "stands_for (capacity l) (refill_per_sec l) now bs (spec_buckets a)"
    using stands_for_evict [OF l1(1), of now "spec_buckets a"] assms(5) l1
    by (simp add: bs_def room_at_def)
  have g: "global_bucket l now op = spec_entry (spec_global a) op
      \<lparr>tokens = global_capacity l, bucket_last = now\<rparr>"
    using assms(2) by (simp add: refines_def global_bucket_def entry_or_def spec_entry_def)
  have ts: "tenant_section l1 now tenant op = (fst (take_token b now (capacity l) (refill_per_sec l)),
      l1\<lparr>buckets := AList.update (tenant, op) (snd (take_token b now (capacity l) (refill_per_sec l))) bs\<rparr>)"
    using l1 by (simp add: tenant_section_def Let_def split_beta bs_def b_def)
  note take = stands_for_entry [OF tb bs assms(4), of "(tenant, op)", folded b_def]
  have gs: "map_of (global l1) = (spec_global a)(op \<mapsto>
      snd (take_token (global_bucket l now op) now (global_capacity l) (global_refill_per_sec l)))"
    using assms(2) by (simp add: l1_def global_section_eq update_conv' refines_def)
  have ok: "fst (global_section l now op) =
      fst (take_token (global_bucket l now op) now (global_capacity l) (global_refill_per_sec l))"
    by (simp add: global_section_eq)
  show "fst (allow l now tenant op) = fst (spec_allow l a now tenant op)"
    using take by (simp add: allow_def spec_allow_def Let_def split_beta ok g [symmetric]
        l1_def [symmetric] ts)
  show "refines (snd (allow l now tenant op)) now (snd (spec_allow l a now tenant op))"
    using take gs sf bs
    by (simp add: allow_def spec_allow_def Let_def split_beta ok g [symmetric] l1_def [symmetric] ts
        refines_def l1 stands_for_update)
qed

section \<open>Runs\<close>

fun spec_run :: "RateLimiter \<Rightarrow> SpecLimiter \<Rightarrow> call list \<Rightarrow> bool list \<times> SpecLimiter" where
  "spec_run cfg a [] = ([], a)"
| "spec_run cfg a ((now, tenant, op) # cs) =
     (let (ok, a') = spec_allow cfg a now tenant op; (oks, a'') = spec_run cfg a' cs in (ok # oks, a''))"

text \<open>At every call of a run there is room: eviction, where it happens, is the lossless pass.\<close>

fun room_along :: "RateLimiter \<Rightarrow> call list \<Rightarrow> bool" where
  "room_along l [] = True"
| "room_along l ((now, tenant, op) # cs) =
     (room_at l now \<and> room_along (snd (allow l now tenant op)) cs)"

lemma spec_allow_config:
  assumes "capacity l' = capacity l" "refill_per_sec l' = refill_per_sec l"
    "global_capacity l' = global_capacity l" "global_refill_per_sec l' = global_refill_per_sec l"
  shows "spec_allow l' a now tenant op = spec_allow l a now tenant op"
  by (simp only: spec_allow_def assms)

lemma spec_run_config:
  assumes "capacity l' = capacity l" "refill_per_sec l' = refill_per_sec l"
    "global_capacity l' = global_capacity l" "global_refill_per_sec l' = global_refill_per_sec l"
  shows "spec_run l' a cs = spec_run l a cs"
proof (induction cs arbitrary: a)
  case (Cons c cs)
  then show ?case by (cases c) (simp add: spec_allow_config [OF assms])
qed simp

lemma run_simulates:
  assumes "limiter_ok l" and "refines l t0 a" and "sorted (t0 # map fst cs)"
    and "\<forall>t \<in> set (map fst cs). t < horizon" and "room_along l cs"
  shows "fst (run_calls l cs) = fst (spec_run l a cs)"
  using assms
proof (induction cs arbitrary: l t0 a)
  case (Cons c cs)
  obtain now tenant op where c: "c = (now, tenant, op)" by (cases c)
  define l' where "l' = snd (allow l now tenant op)"
  define a' where "a' = snd (spec_allow l a now tenant op)"
  have now: "t0 \<le> now" "now < horizon" "room_at l now" using Cons.prems by (simp_all add: c)
  note sim = allow_simulates [OF Cons.prems(1,2) now, of tenant op]
  have "fst (run_calls l' cs) = fst (spec_run l' a' cs)"
    using Cons.prems sim(2)
    by (intro Cons.IH [of _ now]) (auto simp: c l'_def a'_def limiter_ok_allow_step)
  moreover have "spec_run l' a' cs = spec_run l a' cs"
    by (rule spec_run_config) (simp_all add: l'_def)
  ultimately show ?case using sim(1) by (simp add: c l'_def a'_def split_beta)
qed simp

end
