(* ===== verification/Rate_Limiter_Properties.thy ===== *)
theory Rate_Limiter_Properties
  imports Rate_Limiter_Spec
begin

text \<open>
  What the limiter of \<open>crypto/src/limits.rs\<close> guarantees: bounded memory and bounded tokens in
  every run, the ceiling per operation against callers who invent tenants, the burst of one
  tenant, separation of operations, lossless eviction as a refinement of the unbounded limiter,
  and what its eviction drops when it is not lossless.
\<close>

section \<open>The default limits\<close>

text \<open>The constants of \<open>default_limiter\<close> satisfy the contract of a bucket: 120 tokens at 20 per
  second for a tenant, 6000 at 1000 per second for an operation.\<close>

interpretation default_tenant: token_bucket 120 20
  using f64_val_of_nat [of 120] by unfold_locales auto

interpretation default_global: token_bucket 6000 1000
  using f64_val_of_nat [of 6000] by unfold_locales auto

lemma default_limits [simp]:
  "capacity (default_limiter order) = 120" "refill_per_sec (default_limiter order) = 20"
  "global_capacity (default_limiter order) = 6000"
  "global_refill_per_sec (default_limiter order) = 1000"
proof -
  have "f64_round (of_nat 1000) = of_nat 1000" by (intro f64_round_val f64_val_of_nat) simp
  then show "global_refill_per_sec (default_limiter order) = 1000"
    by (simp add: default_limiter_def f64_mul_def)
qed (simp_all add: default_limiter_def)

lemma global_bucket_default:
  "global_bucket (default_limiter order) now op = \<lparr>tokens = 6000, bucket_last = now\<rparr>"
  by (simp add: default_limiter_def)

lemma same_config_run: "same_config l (snd (run_calls l cs))"
proof (induction cs arbitrary: l)
  case (Cons c cs)
  obtain now tenant op where c: "c = (now, tenant, op)" by (cases c)
  show ?case
    using same_config_trans [OF same_config_allow [of l now tenant op] Cons.IH]
    by (simp add: c split_beta)
qed simp

lemma sorted_le_last: "sorted xs \<Longrightarrow> t \<in> set xs \<Longrightarrow> t \<le> last xs"
  by (induction xs rule: rev_induct) (auto simp: sorted_append)

lemma sorted_op_times: "sorted (map fst cs) \<Longrightarrow> sorted (op_times op cs)"
  by (induction cs) (auto simp: op_times_def)

lemma op_times_bounds:
  assumes "sorted (map fst cs)" and "t \<in> set (op_times op cs)"
  shows "hd (op_times op cs) \<le> t" and "t \<le> last (op_times op cs)"
proof -
  have s: "sorted (op_times op cs)" using assms(1) by (rule sorted_op_times)
  show "hd (op_times op cs) \<le> t" using s assms(2) by (cases "op_times op cs") auto
  show "t \<le> last (op_times op cs)"
    using s assms(2) by (rule sorted_le_last)
qed

lemma u32_pos_ge_one: "0 < (c :: u32) \<Longrightarrow> 1 \<le> (of_nat (unat c) :: rat)"
proof -
  assume "0 < c"
  then have "unat c \<noteq> 0" by (simp add: word_gt_0 unat_eq_0)
  then have "1 \<le> unat c" by simp
  then show ?thesis by (metis of_nat_1 of_nat_le_iff)
qed

text \<open>C11: whatever calls a limiter serves, in whatever order and however its hash maps iterate, the
  tenant map never grows beyond its bound, no key occurs twice, and every bucket holds between
  zero tokens and its capacity; the configuration never changes.\<close>

theorem limiter_bounded_in_every_run:
  assumes "0 \<le> r" and "\<forall>xs. mset (order xs) = mset xs"
  shows "let l = snd (run_calls (new_limiter c r order) cs) in
    length (buckets l) \<le> 10000 \<and> distinct (map fst (buckets l)) \<and> distinct (map fst (global l)) \<and>
    (\<forall>b \<in> snd ` set (buckets l). 0 \<le> tokens b \<and> tokens b \<le> of_nat (unat c)) \<and>
    (\<forall>b \<in> snd ` set (global l). 0 \<le> tokens b \<and> tokens b \<le> of_nat (50 * unat c))"
proof -
  define l where "l = snd (run_calls (new_limiter c r order) cs)"
  have ok: "limiter_ok l" unfolding l_def by (intro limiter_ok_run limiter_ok_new assms)
  from same_config_run [of "new_limiter c r order"] have cfg: "capacity l = of_nat (unat c)"
    "global_capacity l = of_nat (50 * unat c)" "max_buckets l = 10000"
    by (simp_all add: same_config_def l_def)
  have "0 \<le> tokens b \<and> tokens b \<le> capacity l" if "b \<in> snd ` set (buckets l)" for b
    using ok that by (auto simp: limiter_ok_def buckets_ok_def bucket_ok_def f64_val_nonneg)
  moreover have "0 \<le> tokens b \<and> tokens b \<le> global_capacity l" if "b \<in> snd ` set (global l)" for b
    using ok that by (auto simp: limiter_ok_def buckets_ok_def bucket_ok_def f64_val_nonneg)
  ultimately show ?thesis
    using ok by (simp add: l_def [symmetric] limiter_ok_def buckets_ok_def cfg Let_def)
qed

theorem limiter_bounded_in_every_run_witness:
  "length (buckets (snd (run_calls (new_limiter 2 1 id) [(0, ''t'', ''op''), (5, ''u'', ''op'')]))) \<le> 10000"
  using limiter_bounded_in_every_run [of 1 id 2 "[(0, ''t'', ''op''), (5, ''u'', ''op'')]"]
  by (simp add: Let_def)

text \<open>C10: the ceiling that a hostile caller cannot escape: however many tenants it invents, the
  calls admitted on one operation never exceed fifty times the capacity plus fifty times the
  refill rate over the elapsed time, up to the rounding of the doubles involved.\<close>

theorem operation_ceiling:
  assumes "0 \<le> r" and "\<forall>xs. mset (order xs) = mset xs" and "0 < c"
    and "sorted (map fst cs)" and "op_times op cs \<noteq> []"
  shows "of_nat (admitted op (new_limiter c r order) cs) \<le>
    of_nat (50 * unat c)
    + of_nat (last (op_times op cs) - hd (op_times op cs)) / 1000000000 * f64_mul r 50 * (1 + 1 / 2 ^ 53) ^ 3
    + of_nat (length (op_times op cs)) * (of_nat (50 * unat c) / 2 ^ 52)"
proof -
  define ts where "ts = op_times op cs"
  have tb: "token_bucket (of_nat (50 * unat c)) (f64_mul r 50)"
    using limiter_ok_new [OF assms(1,2), of c] by (simp add: limiter_ok_def)
  have c: "1 \<le> (of_nat (50 * unat c) :: rat)"
    using u32_pos_ge_one [OF assms(3)] by (simp only: of_nat_mult)
  have "ts \<noteq> []" using assms(5) by (simp add: ts_def)
  have bounds: "hd ts \<le> t" "t \<le> last ts" if "t \<in> set ts" for t
    using op_times_bounds [OF assms(4)] that by (simp_all add: ts_def)
  have "of_nat (admitted op (new_limiter c r order) cs) \<le>
      (of_nat (taken (of_nat (50 * unat c)) (f64_mul r 50)
        \<lparr>tokens = of_nat (50 * unat c), bucket_last = hd ts\<rparr> ts) :: rat)"
    using admitted_le_taken [of op "new_limiter c r order" cs] unfolding of_nat_le_iff ts_def by simp
  also have "\<dots> \<le> of_nat (50 * unat c)
      + of_nat (last ts - hd ts) / 1000000000 * f64_mul r 50 * (1 + 1 / 2 ^ 53) ^ 3
      + of_nat (length ts) * (of_nat (50 * unat c) / 2 ^ 52)"
    using token_bucket.taken_bound [OF tb token_bucket.fresh_ok [OF tb] c, of "hd ts" ts "last ts"]
      sorted_op_times [OF assms(4), of op] bounds \<open>ts \<noteq> []\<close>
    by (simp add: ts_def [symmetric])
  finally show ?thesis by (simp only: ts_def)
qed

theorem operation_ceiling_witness:
  "of_nat (admitted ''op'' (new_limiter 1 0 id) [(0, ''t'', ''op'')]) \<le>
     (50 + 0 + 1 * (50 / 2 ^ 52) :: rat)"
  using operation_ceiling [of 0 id 1 "[(0, ''t'', ''op'')]" "''op''"] by (simp add: f64_mul_def)

lemma length_op_times: "length (op_times op cs) \<le> length cs"
  by (simp add: op_times_def)

text \<open>A first call on an operation is admitted, whatever happened on others, as long as the map of
  tenants is not full.\<close>

lemma first_call_is_admitted:
  assumes "limiter_ok l" and "length (buckets l) < max_buckets l"
    and "map_of (global l) op = None" and "map_of (buckets l) (tenant, op) = None"
    and "1 \<le> capacity l" and "1 \<le> global_capacity l"
  shows "fst (allow l now tenant op)"
proof -
  have tb: "token_bucket (capacity l) (refill_per_sec l)"
    "token_bucket (global_capacity l) (global_refill_per_sec l)"
    using assms(1) by (simp_all add: limiter_ok_def)
  show ?thesis
    unfolding allow_no_evict(1) [OF assms(2)] global_bucket_def tenant_bucket_def entry_or_def
    using assms(3-6) token_bucket.fresh_refilled [OF tb(1)] token_bucket.fresh_refilled [OF tb(2)]
    by simp
qed

lemma default_limiter_ok: "\<forall>xs. mset (order xs) = mset xs \<Longrightarrow> limiter_ok (default_limiter order)"
  unfolding default_limiter_def by (intro limiter_ok_new) simp_all

lemma default_limiter_empty [simp]:
  "buckets (default_limiter order) = []" "global (default_limiter order) = []"
  "max_buckets (default_limiter order) = 10000"
  by (simp_all add: default_limiter_def)

lemma two_operations_are_admitted:
  assumes "\<forall>xs. mset (order xs) = mset xs" and "op' \<noteq> op"
  shows "fst (allow (default_limiter order) now tenant op)"
    and "fst (allow (snd (allow (default_limiter order) now tenant op)) now' tenant' op')"
proof -
  let ?l = "default_limiter order"
  have ok: "limiter_ok ?l" by (rule default_limiter_ok [OF assms(1)])
  then show "fst (allow ?l now tenant op)" by (intro first_call_is_admitted) simp_all
  have b: "buckets (snd (allow ?l now tenant op)) = [] \<or>
      (\<exists>x. buckets (snd (allow ?l now tenant op)) = [((tenant, op), x)])"
    by (simp add: allow_no_evict(2))
  have "map_of (global (snd (allow ?l now tenant op))) op' = None"
    using assms(2) by (simp add: global_allow)
  with b assms(2) limiter_ok_allow_step [OF ok, of now tenant op]
  show "fst (allow (snd (allow ?l now tenant op)) now' tenant' op')"
    by (intro first_call_is_admitted) auto
qed

text \<open>Calls within a window of \<open>s\<close> seconds, with the limits of \<open>default_limiter\<close>: first in the reals, with
  the rounding of every call counted, then in whole calls.\<close>

lemma default_ceiling_rounded:
  assumes "sorted (map fst cs)" and "\<forall>t \<in> set (map fst cs). t0 \<le> t \<and> t \<le> t0 + s * 1000000000"
    and "op_times op cs \<noteq> []"
  shows "(of_nat (admitted op (default_limiter order) cs) :: rat) \<le>
    6000 + of_nat s * 1000 * (1 + 1 / 2 ^ 53) ^ 3 + of_nat (length cs) * (6000 / 2 ^ 52)"
proof -
  define ts where "ts = op_times op cs"
  define e where "e = t0 + s * 1000000000"
  have "set ts \<subseteq> set (map fst cs)" by (auto simp: ts_def op_times_def)
  then have in_window: "t0 \<le> t \<and> t \<le> e" if "t \<in> set ts" for t
    using assms(2) that unfolding e_def by blast
  have "hd ts \<in> set ts" using assms(3) by (simp add: ts_def)
  then have e: "\<forall>t \<in> set ts. t \<le> e" "hd ts \<le> e" "t0 \<le> hd ts"
    using in_window by auto
  have sorted: "sorted (hd ts # ts)"
    using op_times_bounds(1) [OF assms(1)] sorted_op_times [OF assms(1)] by (simp add: ts_def)
  define x where "x = (of_nat (e - hd ts) / 1000000000 :: rat)"
  have "(of_nat (admitted op (default_limiter order) cs) :: rat)
      \<le> of_nat (taken 6000 1000 \<lparr>tokens = 6000, bucket_last = hd ts\<rparr> ts)"
    using admitted_le_taken [of op "default_limiter order" cs]
    unfolding of_nat_le_iff ts_def by (simp add: global_bucket_default)
  also have "\<dots> \<le> 6000 + x * 1000 * (1 + 1 / 2 ^ 53) ^ 3 + of_nat (length ts) * (6000 / 2 ^ 52)"
    using default_global.taken_bound [OF default_global.fresh_ok, of "hd ts" ts e] e sorted
    by (simp add: x_def)
  also have "of_nat (length ts) * (6000 / 2 ^ 52) \<le> (of_nat (length cs) * (6000 / 2 ^ 52) :: rat)"
  proof (rule mult_right_mono)
    show "(of_nat (length ts) :: rat) \<le> of_nat (length cs)"
      using length_op_times [of op cs] unfolding of_nat_le_iff ts_def .
  qed simp
  also have "x * 1000 * (1 + 1 / 2 ^ 53) ^ 3 \<le> of_nat s * 1000 * (1 + 1 / 2 ^ 53) ^ 3"
  proof (intro mult_right_mono)
    have "e - hd ts \<le> s * 1000000000" using e(3) by (simp add: e_def)
    then have "of_nat (e - hd ts) \<le> (of_nat (s * 1000000000) :: rat)" by (simp only: of_nat_le_iff)
    then show "x \<le> of_nat s" by (simp add: x_def)
  qed simp_all
  finally show ?thesis by simp
qed

lemma default_ceiling:
  assumes "sorted (map fst cs)" and "\<forall>t \<in> set (map fst cs). t0 \<le> t \<and> t \<le> t0 + s * 1000000000"
    and "s \<le> 1000000000" and "length cs \<le> 1000000000"
  shows "admitted op (default_limiter order) cs \<le> 6000 + 1000 * s"
proof (cases "op_times op cs = []")
  case True
  then show ?thesis
    using admitted_le_taken [of op "default_limiter order" cs] by simp
next
  case False
  define A where "A = admitted op (default_limiter order) cs"
  have s: "(of_nat s :: rat) \<le> 1000000000"
    using assms(3) by (metis of_nat_le_iff of_nat_numeral)
  have n: "(of_nat (length cs) :: rat) \<le> 1000000000"
    using assms(4) by (metis of_nat_le_iff of_nat_numeral)
  have "(1 + 1 / 2 ^ 53 :: rat) ^ 3 \<le> 1 + 4 / 2 ^ 53" by (simp add: power3_eq_cube)
  then have "of_nat s * 1000 * (1 + 1 / 2 ^ 53) ^ 3 \<le> of_nat s * 1000 * (1 + 4 / 2 ^ 53 :: rat)"
    by (intro mult_left_mono) simp_all
  also have "\<dots> \<le> of_nat s * 1000 + 1 / 2" using s by simp
  finally have "(of_nat A :: rat) \<le>
      6000 + (of_nat s * 1000 + 1 / 2) + of_nat (length cs) * (6000 / 2 ^ 52)"
    using default_ceiling_rounded [OF assms(1,2) False, of order] unfolding A_def by linarith
  also have "of_nat (length cs) * (6000 / 2 ^ 52) \<le> (1000000000 * (6000 / 2 ^ 52) :: rat)"
    using n by (rule mult_right_mono) simp
  finally have "(of_nat A :: rat) < of_nat (6000 + 1000 * s + 1)" by simp
  then show ?thesis unfolding A_def [symmetric] of_nat_less_iff by simp
qed

text \<open>With the limits the service starts with, no caller gets more than 6000 + 1000 * s admissions
  out of one operation within s seconds: the rounding of the doubles never adds up to one more
  call, for up to a thousand million calls and seconds.\<close>

lemma default_ceiling_is_exact:
  assumes "sorted (map fst cs)"
    and "\<forall>t \<in> set (map fst cs). t0 \<le> t \<and> t \<le> t0 + s * 1000000000"
    and "s \<le> 1000000000" and "length cs \<le> 1000000000"
  shows "admitted op (default_limiter order) cs \<le> 6000 + 1000 * s"
  using assms by (rule default_ceiling)

lemma default_ceiling_is_exact_witness:
  "admitted ''op'' (default_limiter rev) [(0, ''t'', ''op''), (2000000000, ''u'', ''op'')] \<le> 8000"
  using default_ceiling_is_exact [of "[(0, ''t'', ''op''), (2000000000, ''u'', ''op'')]" 0 2 "''op''" rev]
  by simp

lemma invented_tenants_admitted:
  assumes "\<forall>xs. mset (order xs) = mset xs" and "0 < c"
    and "\<forall>(t, tenant, o') \<in> set cs. o' = op" and "distinct (map (fst \<circ> snd) cs)"
  shows "admitted op (new_limiter c 0 order) cs = min (length cs) (50 * unat c)"
proof -
  define l where "l = new_limiter c 0 order"
  have ok: "limiter_ok l" unfolding l_def using assms(1) by (intro limiter_ok_new) auto
  have tb: "token_bucket (global_capacity l) (global_refill_per_sec l)"
    using ok by (simp add: limiter_ok_def)
  have "1 \<le> capacity l" unfolding l_def new_capacity using assms(2) by (rule u32_pos_ge_one)
  moreover have "\<forall>(t, tenant, o') \<in> set cs. o' = op \<and> (tenant, op) \<notin> fst ` set (buckets l)"
    using assms(3) by (auto simp: l_def)
  ultimately have "admitted op l cs = taken (global_capacity l) (global_refill_per_sec l)
      (global_bucket l (hd (op_times op cs)) op) (op_times op cs)"
    using ok assms(4) by (intro admitted_new_tenants)
  also have "\<dots> = min (length (op_times op cs)) (nat \<lfloor>tokens (global_bucket l (hd (op_times op cs)) op)\<rfloor>)"
    by (intro token_bucket.taken_frozen [OF tb] global_bucket_ok ok) (simp add: l_def f64_mul_def)
  also have "length (op_times op cs) = length cs"
    using assms(3) by (auto simp: op_times_def split_beta intro!: filter_True)
  also have "nat \<lfloor>tokens (global_bucket l (hd (op_times op cs)) op)\<rfloor> = 50 * unat c"
    unfolding l_def global_bucket_new Bucket.simps floor_of_nat nat_int ..
  finally show ?thesis by (simp add: l_def)
qed

text \<open>The ceiling is reached and not passed: without refill, of any number of calls with
  invented tenants, all different, exactly the first fifty times the capacity are admitted.\<close>

lemma invented_tenants_hit_the_ceiling:
  assumes "\<forall>xs. mset (order xs) = mset xs" and "0 < c"
    and "\<forall>(t, tenant, o') \<in> set cs. o' = op" and "distinct (map (fst \<circ> snd) cs)"
  shows "admitted op (new_limiter c 0 order) cs = min (length cs) (50 * unat c)"
  using assms by (rule invented_tenants_admitted)

lemma invented_tenants_hit_the_ceiling_witness:
  "admitted ''op'' (new_limiter 2 0 id) [(0, ''a'', ''op''), (0, ''b'', ''op''), (7, ''c'', ''op'')] = 3"
  using invented_tenants_hit_the_ceiling
    [of id 2 "[(0, ''a'', ''op''), (0, ''b'', ''op''), (7, ''c'', ''op'')]" "''op''"]
  by simp

text \<open>One tenant's burst on one operation is admitted up to the capacity, call by call, and
  refused from then on.\<close>

lemma burst_is_admitted_up_to_capacity:
  assumes "0 \<le> r" and "\<forall>xs. mset (order xs) = mset xs"
  shows "fst (run_calls (new_limiter c r order) (replicate n (now, tenant, op))) =
    map (\<lambda>i. i < unat c) [0..<n]"
proof -
  have "limiter_ok (new_limiter c r order)" using assms by (rule limiter_ok_new)
  then show ?thesis
    by (rule run_one_key [where g = "50 * unat c"]) simp_all
qed

lemma burst_is_admitted_up_to_capacity_witness:
  "fst (run_calls (new_limiter 2 1 id) (replicate 3 (9, ''t'', ''op''))) = [True, True, False]"
  using burst_is_admitted_up_to_capacity [of 1 id 2 3 9 "''t''" "''op''"]
  by (simp add: upt_rec)

text \<open>C36: a refused call still spends the operation's ceiling. A tenant that keeps calling after its
  own budget is gone exhausts the ceiling, and the next call of any other tenant on that
  operation is refused although that tenant never called before.\<close>

theorem noisy_tenant_starves_the_others:
  assumes "0 \<le> r" and "\<forall>xs. mset (order xs) = mset xs" and "50 * unat c \<le> n"
  shows "\<not> fst (allow (snd (run_calls (new_limiter c r order) (replicate n (now, noisy, op)))) now quiet op)"
proof -
  define l where "l = snd (run_calls (new_limiter c r order) (replicate n (now, noisy, op)))"
  have ok: "limiter_ok (new_limiter c r order)" using assms(1,2) by (rule limiter_ok_new)
  have b: "tokens (global_bucket l now op) = of_nat (50 * unat c - n)"
    "bucket_last (global_bucket l now op) = now"
    using global_drain [OF ok, of "replicate n (now, noisy, op)" now op "50 * unat c"]
    by (simp_all add: l_def)
  have "limiter_ok l" unfolding l_def using ok by (rule limiter_ok_run)
  then have "refilled (global_bucket l now op) now (global_capacity l) (global_refill_per_sec l) = 0"
    using frozen_global(1) [of l now op] b assms(3) by simp
  then show ?thesis
    using allow_passes_global [of l now quiet op] unfolding l_def [symmetric] by auto
qed

theorem noisy_tenant_starves_the_others_witness:
  "\<not> fst (allow (snd (run_calls (new_limiter 1 1 id) (replicate 50 (0, ''noisy'', ''op'')))) 0 ''quiet'' ''op'')"
  using noisy_tenant_starves_the_others [of 1 id 1 50 0 "''noisy''" "''op''" "''quiet''"] by simp

text \<open>Budgets are separate: a call leaves the ceiling of every other operation as it was and,
  while the map is below its bound, the bucket of every other tenant and operation too.\<close>

lemma budgets_are_separate:
  assumes "length (buckets l) < max_buckets l"
  shows "(op' \<noteq> op \<longrightarrow> map_of (global (snd (allow l now tenant op))) op' = map_of (global l) op') \<and>
    (k \<noteq> (tenant, op) \<longrightarrow> map_of (buckets (snd (allow l now tenant op))) k = map_of (buckets l) k)"
  using allow_no_evict(2) [OF assms, of now tenant op] by (simp add: global_allow update_conv')

lemma budgets_are_separate_witness:
  "map_of (buckets (snd (allow (new_limiter 1 1 id) 0 ''t'' ''a''))) (''t'', ''b'') = None"
  using budgets_are_separate [of "new_limiter 1 1 id" "''b''" "''a''" 0 "''t''" "(''t'', ''b'')"]
  by simp

text \<open>C21: the limiter refines the unbounded one, which never drops a bucket: with time moving
  forward and fewer than \<open>max_buckets\<close> buckets below capacity at each call, the answers are the
  same, so dropping refilled buckets is invisible to every caller.\<close>

theorem eviction_is_invisible:
  assumes "0 \<le> r" and "\<forall>xs. mset (order xs) = mset xs" and "sorted (map fst cs)"
    and "\<forall>t \<in> set (map fst cs). t < horizon" and "room_along (new_limiter c r order) cs"
  shows "fst (run_calls (new_limiter c r order) cs) =
    fst (spec_run (new_limiter c r order) \<lparr>spec_global = Map.empty, spec_buckets = Map.empty\<rparr> cs)"
proof (rule run_simulates [where ?t0.0 = 0])
  show "limiter_ok (new_limiter c r order)" using assms(1,2) by (rule limiter_ok_new)
  show "refines (new_limiter c r order) 0 \<lparr>spec_global = Map.empty, spec_buckets = Map.empty\<rparr>"
    by (simp add: refines_def stands_for_def)
qed (use assms in auto)

theorem eviction_is_invisible_witness:
  "fst (run_calls (new_limiter 1 1 id) [(0, ''t'', ''a'')]) =
   fst (spec_run (new_limiter 1 1 id) \<lparr>spec_global = Map.empty, spec_buckets = Map.empty\<rparr> [(0, ''t'', ''a'')])"
  using eviction_is_invisible [of 1 id "[(0, ''t'', ''a'')]" 1]
  by (simp add: room_at_def horizon_def)

text \<open>When refilled buckets do not free enough room, exactly half the bound survives, and no
  bucket that is dropped was used more recently than one that stays.\<close>

lemma lru_eviction_drops_the_oldest:
  assumes "limiter_ok l" and "length (buckets l) = max_buckets l"
    and "\<forall>b \<in> snd ` set (buckets l). below_capacity b now (capacity l) (refill_per_sec l)"
  shows "length (evict l now (buckets l)) = max_buckets l div 2 \<and>
    (\<forall>(k, b) \<in> set (buckets l). \<forall>(k', b') \<in> set (evict l now (buckets l)).
      (k, b) \<notin> set (evict l now (buckets l)) \<longrightarrow> bucket_last b \<le> bucket_last b')"
proof -
  have d: "distinct (map fst (buckets l))" and m: "mset (hash_order l (buckets l)) = mset (buckets l)"
    using assms(1) by (auto simp: limiter_ok_def buckets_ok_def)
  have live: "filter (\<lambda>(_, b). below_capacity b now (capacity l) (refill_per_sec l)) (buckets l) = buckets l"
    using assms(3) by (auto simp: filter_id_conv)
  define n where "n = length (buckets l) - max_buckets l div 2"
  have e: "evict l now (buckets l) =
      filter (\<lambda>p. fst p \<notin> set (take n (lru_keys l (buckets l)))) (buckets l)"
    by (simp add: evict_def assms(2) live n_def fold_delete Let_def)
  show ?thesis
    using length_evict_lru [OF d m] lru_order [OF d m, of _ _ n] assms(2)
    unfolding e n_def [symmetric] by (auto simp: n_def)
qed

definition lru_example :: RateLimiter where
  "lru_example = (new_limiter 4 0 rev)\<lparr>max_buckets := 2,
     buckets := [((''new'', ''op''), \<lparr>tokens = 3, bucket_last = 9\<rparr>),
                 ((''old'', ''op''), \<lparr>tokens = 3, bucket_last = 4\<rparr>)]\<rparr>"

lemma lru_eviction_drops_the_oldest_witness:
  "length (evict lru_example 9 (buckets lru_example)) = 1"
proof -
  have "limiter_ok (new_limiter 4 0 rev)" by (intro limiter_ok_new) auto
  moreover have "f64_val 3" using f64_val_of_nat [of 3] by simp
  ultimately have "limiter_ok lru_example"
    by (auto simp: limiter_ok_def lru_example_def buckets_ok_def bucket_ok_def)
  moreover have "f64_add 3 (f64_mul x 0) = 3" for x
    using f64_round_val [OF \<open>f64_val 3\<close>] by (simp add: f64_add_def f64_mul_def)
  ultimately show ?thesis
    using lru_eviction_drops_the_oldest [of lru_example 9]
    by (simp add: lru_example_def below_capacity_def)
qed

end
