(* ===== verification/Rate_Limiter_Recovery.thy ===== *)
theory Rate_Limiter_Recovery
  imports Rate_Limiter_Properties
begin

text \<open>
  The limiter of \<open>crypto/src/limits.rs\<close> lets callers in again: no traffic, however heavy, locks
  anyone out for longer than it takes to refill one token. A second suffices whenever at least
  one token per second flows back, which \<open>default_limiter\<close> does twenty times over.
\<close>

section \<open>One bucket\<close>

lemma as_secs_f64_ge_one:
  assumes "1000000000 \<le> d"
  shows "1 \<le> as_secs_f64 d"
proof -
  have one: "f64_round 1 = 1" using f64_round_val [OF f64_val_of_nat [of 1]] by simp
  have "1 \<le> d div 1000000000" using assms by (simp add: Suc_le_eq div_greater_zero_iff)
  then have "f64_of_nat 1 \<le> f64_of_nat (d div 1000000000)" by (rule f64_of_nat_mono)
  then have "1 \<le> f64_of_nat (d div 1000000000)" by (simp add: f64_of_nat_def one)
  moreover have "0 \<le> f64_round (of_nat (d mod 1000000000) / 1000000000)"
    by (intro f64_round_nonneg) simp
  ultimately have "1 \<le> f64_of_nat (d div 1000000000) + f64_round (of_nat (d mod 1000000000) / 1000000000)"
    by linarith
  then have "f64_round 1 \<le> as_secs_f64 d"
    unfolding as_secs_f64_eq by (intro f64_round_mono) simp_all
  then show ?thesis by (simp add: one)
qed

lemma f64_mul_ge_one:
  assumes "1 \<le> x" and "1 \<le> y"
  shows "1 \<le> f64_mul x y"
proof -
  have "1 * 1 \<le> x * y" using assms by (intro mult_mono) simp_all
  then have "f64_round 1 \<le> f64_round (x * y)" by (intro f64_round_mono) simp_all
  then show ?thesis using f64_round_val [OF f64_val_of_nat [of 1]] by (simp add: f64_mul_def)
qed

context token_bucket begin

lemma refilled_after_second:
  assumes "bucket_ok cap b" and "1 \<le> cap" and "1 \<le> refill"
    and "bucket_last b + 1000000000 \<le> now"
  shows "1 \<le> refilled b now cap refill"
proof -
  have "1 \<le> f64_mul (elapsed_secs b now) refill"
    unfolding elapsed_secs_def using assms(3,4) by (intro f64_mul_ge_one as_secs_f64_ge_one) simp_all
  moreover have "0 \<le> tokens b" using assms(1) by (simp add: bucket_ok_def f64_val_nonneg)
  ultimately have "f64_round 1 \<le> f64_add (tokens b) (f64_mul (elapsed_secs b now) refill)"
    unfolding f64_add_def by (intro f64_round_mono) simp_all
  then show ?thesis
    using assms(2) f64_round_val [OF f64_val_of_nat [of 1]] by (simp add: refilled_def)
qed

end

section \<open>The limiter\<close>

text \<open>Every bucket was last touched at or before \<open>t\<close>.\<close>

definition aged :: "instant \<Rightarrow> RateLimiter \<Rightarrow> bool" where
  "aged t l \<longleftrightarrow> (\<forall>b \<in> snd ` set (buckets l). bucket_last b \<le> t) \<and>
     (\<forall>b \<in> snd ` set (global l). bucket_last b \<le> t)"

lemma set_update_subset: "set (AList.update k v m) \<subseteq> insert (k, v) (set m)"
  by (induction m) auto

lemma set_evict: "set (evict l now bs) \<subseteq> set bs"
  by (cases rule: evict_cases [of l now bs]) auto

lemma aged_update:
  assumes "\<forall>b \<in> snd ` set m. bucket_last b \<le> t" and "bucket_last v \<le> t"
  shows "\<forall>b \<in> snd ` set (AList.update k v m). bucket_last b \<le> t"
  using assms set_update_subset [of k v m] by fastforce

lemma aged_global_section:
  assumes "aged t l" and "now \<le> t"
  shows "aged t (snd (global_section l now op))"
  using assms unfolding aged_def global_section_eq
  by (intro conjI aged_update) simp_all

lemma aged_tenant_section:
  assumes "aged t l" and "now \<le> t"
  shows "aged t (snd (tenant_section l now tenant op))"
proof -
  have "\<forall>b \<in> snd ` set (evict l now (buckets l)). bucket_last b \<le> t"
    using assms(1) set_evict [of l now "buckets l"] by (fastforce simp: aged_def)
  then show ?thesis
    using assms unfolding aged_def tenant_section_eq [OF refl]
    by (intro conjI aged_update) simp_all
qed

lemma aged_allow:
  assumes "aged t l" and "now \<le> t"
  shows "aged t (snd (allow l now tenant op))"
  using assms by (simp add: allow_def split_beta aged_global_section aged_tenant_section)

lemma aged_run:
  assumes "aged t l" and "\<forall>(now, tenant, op) \<in> set cs. now \<le> t"
  shows "aged t (snd (run_calls l cs))"
  using assms by (induction cs arbitrary: l) (auto simp: split_beta aged_allow)

lemma aged_entry:
  assumes "\<forall>b \<in> snd ` set m. bucket_last b \<le> t"
  shows "bucket_last (entry_or k d m) \<le> t \<or> entry_or k d m = d"
  using assms by (force simp: entry_or_def dest: map_of_SomeD split: option.split)

text \<open>A bucket of the map that was left alone for a second, and a bucket that does not exist yet, has
  a token.\<close>

context token_bucket begin

lemma entry_has_token:
  assumes "buckets_ok cap m" and "\<forall>b \<in> snd ` set m. bucket_last b \<le> t"
    and "1 \<le> cap" and "1 \<le> refill" and "t + 1000000000 \<le> now"
  shows "1 \<le> refilled (entry_or k \<lparr>tokens = cap, bucket_last = now\<rparr> m) now cap refill"
proof -
  let ?d = "\<lparr>tokens = cap, bucket_last = now\<rparr>"
  from aged_entry [OF assms(2), of k ?d] show ?thesis
  proof
    assume "bucket_last (entry_or k ?d m) \<le> t"
    with assms(5) have "bucket_last (entry_or k ?d m) + 1000000000 \<le> now" by simp
    with assms(1,3,4) show ?thesis by (intro refilled_after_second entry_or_ok fresh_ok)
  next
    assume "entry_or k ?d m = ?d"
    then show ?thesis using assms(3) by (simp only: fresh_refilled)
  qed
qed

end

definition generous :: "RateLimiter \<Rightarrow> bool" where
  "generous l \<longleftrightarrow> 1 \<le> capacity l \<and> 1 \<le> refill_per_sec l \<and> 1 \<le> global_capacity l \<and>
     1 \<le> global_refill_per_sec l"

lemma generous_new: "0 < c \<Longrightarrow> 1 \<le> r \<Longrightarrow> generous (new_limiter c r order)"
  using u32_pos_ge_one [of c] by (simp add: generous_def f64_mul_ge_one)

lemma admitted_after_second:
  assumes "limiter_ok l" and "generous l" and "aged t l" and "t + 1000000000 \<le> now"
  shows "fst (allow l now tenant op)"
proof -
  have tb: "token_bucket (capacity l) (refill_per_sec l)"
    "token_bucket (global_capacity l) (global_refill_per_sec l)"
    and ok: "buckets_ok (capacity l) (buckets l)" "buckets_ok (global_capacity l) (global l)"
    using assms(1) by (simp_all add: limiter_ok_def)
  note g = assms(2) [unfolded generous_def]
  define l' where "l' = snd (global_section l now op)"
  have cfg: "capacity l' = capacity l" "refill_per_sec l' = refill_per_sec l" "buckets l' = buckets l"
    by (simp_all add: l'_def global_section_eq(3))
  have "fst (global_section l now op)"
    unfolding global_section_eq(1) global_bucket_def
    using ok(2) assms(3,4) g by (intro token_bucket.entry_has_token [OF tb(2)]) (auto simp: aged_def)
  moreover have "fst (tenant_section l' now tenant op)"
    unfolding tenant_section_eq(1) [OF refl] cfg
  proof (rule token_bucket.entry_has_token [OF tb(1) _ _ _ _ assms(4)])
    show "buckets_ok (capacity l) (evict l' now (buckets l))" by (rule buckets_ok_evict [OF ok(1)])
    show "\<forall>b \<in> snd ` set (evict l' now (buckets l)). bucket_last b \<le> t"
      using assms(3) set_evict [of l' now "buckets l"] by (fastforce simp: aged_def)
  qed (simp_all add: g)
  ultimately show ?thesis by (simp add: allow_def split_beta l'_def)
qed

lemma run_then_second:
  assumes "limiter_ok l" and "generous l" and "aged t l"
    and "\<forall>(now, tenant, op) \<in> set cs. now \<le> t" and "t + 1000000000 \<le> now"
  shows "fst (allow (snd (run_calls l cs)) now tenant op)"
proof (rule admitted_after_second [OF limiter_ok_run [OF assms(1)] _ aged_run [OF assms(3,4)] assms(5)])
  show "generous (snd (run_calls l cs))"
    using assms(2) same_config_run [of l cs] by (simp add: generous_def same_config_def)
qed

section \<open>Properties\<close>

text \<open>C17: nobody is locked out. Whatever calls a limiter served, of however many tenants and whether or
  not buckets were evicted, once a second passes without calls the next call on any operation is
  admitted for any tenant, provided the budget is at least one call and one call per second.\<close>

theorem quiet_second_admits_everyone:
  assumes "0 < c" and "1 \<le> r" and "\<forall>xs. mset (order xs) = mset xs"
    and "\<forall>(now, tenant, op) \<in> set cs. now \<le> t" and "t + 1000000000 \<le> now"
  shows "fst (allow (snd (run_calls (new_limiter c r order) cs)) now tenant op)"
  by (rule run_then_second [OF limiter_ok_new generous_new _ assms(4,5)])
    (use assms in \<open>simp_all add: aged_def\<close>)

theorem quiet_second_admits_everyone_witness:
  "fst (allow (snd (run_calls (new_limiter 2 1 rev) (replicate 500 (7, ''t1'', ''op''))))
     1000000007 ''t2'' ''op'')"
  by (rule quiet_second_admits_everyone [where t = 7]) auto

end
