(* ===== verification/Rate_Limiter_Exact.thy ===== *)
theory Rate_Limiter_Exact
  imports Rate_Limiter
begin

text \<open>
  The limiter as plain integer arithmetic. When the refill rate is a whole number and calls come
  at whole seconds, no double of \<open>crypto/src/limits.rs\<close> is ever rounded: \<open>allow\<close> answers like the
  textbook token bucket on natural numbers defined here, whose state maps keys to a number of
  tokens and the second of the last call.
\<close>

section \<open>The integer limiter\<close>

type_synonym nat_bucket = "nat \<times> nat"

definition nat_refill :: "nat \<Rightarrow> nat \<Rightarrow> nat_bucket \<Rightarrow> nat \<Rightarrow> nat" where
  "nat_refill cap k b s = min (fst b + k * (s - snd b)) cap"

definition nat_take :: "nat \<Rightarrow> nat \<Rightarrow> nat_bucket \<Rightarrow> nat \<Rightarrow> bool \<times> nat_bucket" where
  "nat_take cap k b s = (let n = nat_refill cap k b s in (0 < n, (n - 1, s)))"

record NatLimiter =
  nat_global :: "string \<rightharpoonup> nat_bucket"
  nat_tenants :: "bucket_key \<rightharpoonup> nat_bucket"

definition nat_entry :: "('k \<rightharpoonup> nat_bucket) \<Rightarrow> 'k \<Rightarrow> nat_bucket \<Rightarrow> nat_bucket" where
  "nat_entry m k d = (case m k of Some b \<Rightarrow> b | None \<Rightarrow> d)"

definition nat_allow ::
    "nat \<Rightarrow> nat \<Rightarrow> NatLimiter \<Rightarrow> nat \<Rightarrow> string \<Rightarrow> string \<Rightarrow> bool \<times> NatLimiter" where
  "nat_allow cap k nl s tenant op =
     (let (ok, b) = nat_take (50 * cap) (50 * k) (nat_entry (nat_global nl) op (50 * cap, s)) s;
          nl = nl\<lparr>nat_global := (nat_global nl)(op \<mapsto> b)\<rparr>
      in if \<not> ok then (False, nl)
         else
           (let (ok, b) = nat_take cap k (nat_entry (nat_tenants nl) (tenant, op) (cap, s)) s
            in (ok, nl\<lparr>nat_tenants := (nat_tenants nl)((tenant, op) \<mapsto> b)\<rparr>)))"

fun nat_run :: "nat \<Rightarrow> nat \<Rightarrow> NatLimiter \<Rightarrow> (nat \<times> string \<times> string) list \<Rightarrow> bool list" where
  "nat_run cap k nl [] = []"
| "nat_run cap k nl ((s, tenant, op) # cs) =
     (let (ok, nl') = nat_allow cap k nl s tenant op in ok # nat_run cap k nl' cs)"

definition nat_empty :: NatLimiter where
  "nat_empty = \<lparr>nat_global = Map.empty, nat_tenants = Map.empty\<rparr>"

section \<open>No rounding on whole numbers\<close>

lemma f64_round_of_nat: "n \<le> 2 ^ 53 \<Longrightarrow> f64_round (of_nat n) = of_nat n"
  by (rule f64_round_val [OF f64_val_of_nat])

lemma f64_round_big:
  assumes "c \<le> 2 ^ 53" and "of_nat c \<le> x"
  shows "of_nat c \<le> f64_round x"
  using f64_round_mono [OF _ assms(2)] f64_round_of_nat [OF assms(1)] by simp

text \<open>A double that is the natural number, or so big that every capacity is below it.\<close>

definition stands_for_nat :: "rat \<Rightarrow> nat \<Rightarrow> bool" where
  "stands_for_nat x n \<longleftrightarrow> (if n \<le> 2 ^ 53 then x = of_nat n else of_nat (2 ^ 53) \<le> x)"

lemma stands_for_nat_round: "stands_for_nat x n \<Longrightarrow> stands_for_nat (f64_round x) n"
  using f64_round_of_nat [of n] f64_round_big [of "2 ^ 53" x]
  by (simp add: stands_for_nat_def split: if_splits)

lemma stands_for_nat_ge: "stands_for_nat x n \<Longrightarrow> of_nat (min n (2 ^ 53)) \<le> x"
  by (auto simp: stands_for_nat_def min_def split: if_splits)

lemma stands_for_nat_mult:
  assumes "stands_for_nat x d"
  shows "stands_for_nat (x * of_nat k) (d * k)"
proof (cases "k = 0 \<or> d \<le> 2 ^ 53")
  case True
  then show ?thesis
  proof
    assume "d \<le> 2 ^ 53"
    then have "x * of_nat k = of_nat (d * k)" using assms by (simp add: stands_for_nat_def)
    then show ?thesis
      unfolding stands_for_nat_def by (metis linorder_le_cases of_nat_le_iff)
  qed (simp add: stands_for_nat_def)
next
  case False
  then have k: "1 \<le> k" and big: "of_nat (2 ^ 53) \<le> x" "\<not> d * k \<le> 2 ^ 53"
    using assms by (auto simp: stands_for_nat_def not_le intro: less_le_trans)
  have "of_nat (2 ^ 53) * 1 \<le> x * (of_nat k :: rat)"
    using big(1) k by (intro mult_mono) (auto simp: Suc_le_eq)
  with big(2) show ?thesis by (simp add: stands_for_nat_def)
qed

lemma stands_for_nat_add:
  assumes "stands_for_nat x d" and "0 \<le> x"
  shows "stands_for_nat (of_nat n + x) (n + d)"
proof (cases "d \<le> 2 ^ 53")
  case True
  then have "of_nat n + x = of_nat (n + d)" using assms(1) by (simp add: stands_for_nat_def)
  then show ?thesis
    unfolding stands_for_nat_def by (metis linorder_le_cases of_nat_le_iff)
next
  case False
  then have "of_nat (2 ^ 53) \<le> x" using assms(1) by (simp add: stands_for_nat_def)
  then have "of_nat (2 ^ 53) \<le> of_nat n + x" by (rule order_trans) simp
  with False show ?thesis by (simp add: stands_for_nat_def)
qed

lemma stands_for_nat_secs: "stands_for_nat (as_secs_f64 (d * 1000000000)) d"
proof (cases "d \<le> 2 ^ 53")
  case False
  have "of_nat (2 ^ 53) = f64_of_nat (2 ^ 53)" by (rule f64_of_nat_exact [symmetric]) simp
  also have "\<dots> \<le> f64_of_nat d" using False by (intro f64_of_nat_mono) simp
  finally have "of_nat (2 ^ 53) \<le> f64_round (f64_of_nat d)" by (intro f64_round_big) simp_all
  then show ?thesis using False by (simp add: stands_for_nat_def as_secs_f64_eq)
qed (simp add: stands_for_nat_def as_secs_f64_whole)

lemma min_stands_for_nat:
  "cap \<le> 2 ^ 53 \<Longrightarrow> stands_for_nat x n \<Longrightarrow> min x (of_nat cap) = of_nat (min n cap)"
  by (auto simp: stands_for_nat_def min_def of_nat_le_iff split: if_splits)

section \<open>Buckets\<close>

definition exact_bucket :: "instant \<Rightarrow> nat_bucket \<Rightarrow> Bucket" where
  "exact_bucket base b = \<lparr>tokens = of_nat (fst b), bucket_last = base + snd b * 1000000000\<rparr>"

lemma refilled_exact:
  assumes "cap \<le> 2 ^ 53"
  shows "refilled (exact_bucket base b) (base + s * 1000000000) (of_nat cap) (of_nat k) =
    of_nat (nat_refill cap k b s)"
proof -
  let ?b = "exact_bucket base b"
  have "elapsed_secs ?b (base + s * 1000000000) = as_secs_f64 ((s - snd b) * 1000000000)"
    by (simp add: elapsed_secs_def exact_bucket_def diff_mult_distrib)
  then have "stands_for_nat (elapsed_secs ?b (base + s * 1000000000)) (s - snd b)"
    by (simp add: stands_for_nat_secs)
  then have "stands_for_nat (f64_mul (elapsed_secs ?b (base + s * 1000000000)) (of_nat k)) ((s - snd b) * k)"
    unfolding f64_mul_def by (intro stands_for_nat_round stands_for_nat_mult)
  then have "stands_for_nat (f64_add (tokens ?b) (f64_mul (elapsed_secs ?b (base + s * 1000000000)) (of_nat k)))
      (fst b + (s - snd b) * k)"
    unfolding f64_add_def f64_mul_def exact_bucket_def
    by (intro stands_for_nat_round) (simp add: stands_for_nat_add f64_round_nonneg)
  from min_stands_for_nat [OF assms this] show ?thesis
    by (simp add: refilled_def nat_refill_def mult.commute)
qed

lemma take_exact:
  assumes "cap \<le> 2 ^ 53"
  shows "take_token (exact_bucket base b) (base + s * 1000000000) (of_nat cap) (of_nat k) =
    (fst (nat_take cap k b s), exact_bucket base (snd (nat_take cap k b s)))"
proof -
  let ?n = "nat_refill cap k b s"
  have le: "?n \<le> 2 ^ 53" using assms by (simp add: nat_refill_def)
  have "f64_sub (of_nat ?n) 1 = of_nat (?n - 1)" if "0 < ?n"
  proof -
    have "f64_val (of_nat ?n)" "1 \<le> (of_nat ?n :: rat)" "(of_nat ?n :: rat) \<le> 2 ^ 53"
      using that le f64_val_of_nat [OF le] of_nat_mono [OF le, where 'a = rat] by (auto simp: Suc_le_eq)
    from f64_sub_one [OF this] that show ?thesis by (simp add: of_nat_diff)
  qed
  then show ?thesis
    using refilled_exact [OF assms, of base b s k]
    by (auto simp: take_token_def nat_take_def exact_bucket_def Let_def)
qed

section \<open>The limiter\<close>

definition exact_limiter :: "instant \<Rightarrow> nat \<Rightarrow> nat \<Rightarrow> RateLimiter \<Rightarrow> NatLimiter \<Rightarrow> bool" where
  "exact_limiter base cap k l nl \<longleftrightarrow>
     capacity l = of_nat cap \<and> refill_per_sec l = of_nat k \<and>
     global_capacity l = of_nat (50 * cap) \<and> global_refill_per_sec l = of_nat (50 * k) \<and>
     map_of (global l) = map_option (exact_bucket base) \<circ> nat_global nl \<and>
     map_of (buckets l) = map_option (exact_bucket base) \<circ> nat_tenants nl"

lemma exact_entry:
  assumes "map_of m = map_option (exact_bucket base) \<circ> nm"
  shows "entry_or key \<lparr>tokens = of_nat c, bucket_last = base + s * 1000000000\<rparr> m =
    exact_bucket base (nat_entry nm key (c, s))"
  by (simp add: assms entry_or_def nat_entry_def exact_bucket_def split: option.splits)

lemma exact_update:
  assumes "map_of m = map_option (exact_bucket base) \<circ> nm"
  shows "map_of (AList.update key (exact_bucket base b) m) =
    map_option (exact_bucket base) \<circ> nm(key \<mapsto> b)"
  by (auto simp: update_conv' assms)

lemma exact_allow:
  assumes sim: "exact_limiter base cap k l nl" and cap: "50 * cap \<le> 2 ^ 53"
    and short: "length (buckets l) < max_buckets l"
  shows "fst (allow l (base + s * 1000000000) tenant op) = fst (nat_allow cap k nl s tenant op)"
    and "exact_limiter base cap k (snd (allow l (base + s * 1000000000) tenant op))
      (snd (nat_allow cap k nl s tenant op))"
proof -
  let ?now = "base + s * 1000000000"
  from sim have l: "capacity l = of_nat cap" "refill_per_sec l = of_nat k"
      "global_capacity l = of_nat (50 * cap)" "global_refill_per_sec l = of_nat (50 * k)"
      "map_of (global l) = map_option (exact_bucket base) \<circ> nat_global nl"
      "map_of (buckets l) = map_option (exact_bucket base) \<circ> nat_tenants nl"
    by (simp_all only: exact_limiter_def)
  define g where "g = nat_entry (nat_global nl) op (50 * cap, s)"
  define b where "b = nat_entry (nat_tenants nl) (tenant, op) (cap, s)"
  have g: "global_bucket l ?now op = exact_bucket base g"
    unfolding global_bucket_def l(3) g_def by (rule exact_entry [OF l(5)])
  have b: "tenant_bucket l ?now tenant op = exact_bucket base b"
    unfolding tenant_bucket_def l(1) b_def by (rule exact_entry [OF l(6)])
  have G: "take_token (global_bucket l ?now op) ?now (global_capacity l) (global_refill_per_sec l) =
      (fst (nat_take (50 * cap) (50 * k) g s), exact_bucket base (snd (nat_take (50 * cap) (50 * k) g s)))"
    unfolding g l by (rule take_exact [OF cap])
  have B: "take_token (tenant_bucket l ?now tenant op) ?now (capacity l) (refill_per_sec l) =
      (fst (nat_take cap k b s), exact_bucket base (snd (nat_take cap k b s)))"
    unfolding b l using cap by (intro take_exact) simp
  note step = allow_no_evict [OF short, of ?now tenant op, folded fst_take, unfolded G B fst_conv snd_conv]
  have global: "global (snd (allow l ?now tenant op)) =
      AList.update op (exact_bucket base (snd (nat_take (50 * cap) (50 * k) g s))) (global l)"
    by (simp only: global_allow G snd_conv)
  show "fst (allow l ?now tenant op) = fst (nat_allow cap k nl s tenant op)"
    by (simp add: step(1) nat_allow_def g_def b_def Let_def split_beta)
  show "exact_limiter base cap k (snd (allow l ?now tenant op)) (snd (nat_allow cap k nl s tenant op))"
    using l exact_update [OF l(5)] exact_update [OF l(6)]
    by (simp add: exact_limiter_def global step(2) nat_allow_def g_def b_def Let_def split_beta)
qed

lemma allow_length: "length (buckets l) < max_buckets l \<Longrightarrow>
    length (buckets (snd (allow l now tenant op))) \<le> Suc (length (buckets l))"
  by (simp add: allow_no_evict(2) length_update_le)

lemma exact_run:
  assumes "exact_limiter base cap k l nl" and "50 * cap \<le> 2 ^ 53"
    and "length (buckets l) + length cs \<le> max_buckets l"
  shows "fst (run_calls l (map (\<lambda>(s, tenant, op). (base + s * 1000000000, tenant, op)) cs)) =
    nat_run cap k nl cs"
  using assms
proof (induction cs arbitrary: l nl)
  case (Cons c cs)
  obtain s tenant op where c: "c = (s, tenant, op)" by (cases c)
  have short: "length (buckets l) < max_buckets l" using Cons.prems(3) by simp
  note step = exact_allow [OF Cons.prems(1,2) short, of s tenant op]
  show ?case
    using step(1) Cons.IH [OF step(2) Cons.prems(2)] Cons.prems(3)
      allow_length [OF short, of "base + s * 1000000000" tenant op]
    by (simp add: c split_beta)
qed simp

lemma exact_new:
  assumes "50 * k \<le> 2 ^ 53"
  shows "exact_limiter base (unat c) k (new_limiter c (of_nat k) order) nat_empty"
  using f64_round_of_nat [OF assms]
  by (simp add: exact_limiter_def nat_empty_def f64_mul_def mult.commute)

text \<open>C20: With a whole-number refill \<open>k\<close> (of which fifty are exact in a double, \<open>50 * k \<le> 2 ^ 53\<close>) and calls a
  whole number of seconds apart, the limiter on doubles is the integer token bucket for up to ten
  thousand calls (with which the map of buckets is never full before a call, so nothing is evicted):
  each gets the same answer, in every order of tenants, operations and times, clock running
  backwards included, however many seconds pass between the calls.\<close>

theorem whole_seconds_are_exact:
  assumes "50 * k \<le> 2 ^ 53" and "length cs \<le> 10000"
  shows "fst (run_calls (new_limiter c (of_nat k) order)
      (map (\<lambda>(s, tenant, op). (base + s * 1000000000, tenant, op)) cs)) =
    nat_run (unat c) k nat_empty cs"
  using assms(2) by (intro exact_run exact_new [OF assms(1)] u32_le_53) simp

theorem whole_seconds_are_exact_witness:
  "fst (run_calls (new_limiter 2 1 id)
     [(7, ''t1'', ''op''), (7, ''t1'', ''op''), (7, ''t1'', ''op''), (1000000007, ''t1'', ''op'')]) =
   [True, True, False, True]"
  using whole_seconds_are_exact
      [of 1 "[(0, ''t1'', ''op''), (0, ''t1'', ''op''), (0, ''t1'', ''op''), (1, ''t1'', ''op'')]" 2 id 7]
  by (simp add: nat_allow_def nat_take_def nat_refill_def nat_entry_def nat_empty_def)

end
