(* ===== verification/Rate_Limiter_Readings.thy ===== *)
theory Rate_Limiter_Readings
  imports Rate_Limiter_Properties
begin

text \<open>
  The ceiling of an operation in the order in which its lock is taken. A call of
  \<open>RateLimiter::allow\<close> (\<open>crypto/src/limits.rs\<close>) reads the clock before it waits for the lock of
  \<open>global\<close>, so the readings that reach a bucket need not be in order. Whatever their order, what the
  ceiling has granted is a function of the list of readings, and it is bounded by the time they climb.
\<close>

type_synonym reading = "instant \<times> string"

definition op_readings :: "string \<Rightarrow> reading list \<Rightarrow> instant list" where
  "op_readings op rs = map fst (filter (\<lambda>r. snd r = op) rs)"

lemma op_readings_simps [simp]:
  "op_readings op [] = []"
  "op_readings op (rs @ rs') = op_readings op rs @ op_readings op rs'"
  "op_readings op [(now, o')] = (if o' = op then [now] else [])"
  by (simp_all add: op_readings_def)

lemma length_op_readings: "length (op_readings op rs) \<le> length rs"
  by (simp add: op_readings_def)

lemma op_readings_fst: "set (op_readings op rs) \<subseteq> fst ` set rs"
  by (auto simp: op_readings_def)

text \<open>The readings that come late: older than the one before them. Over a window every one of them costs
  at most the window once more.\<close>

fun late :: "instant \<Rightarrow> instant list \<Rightarrow> nat" where
  "late b [] = 0"
| "late b (t # ts) = of_bool (t < b) + late t ts"

lemma late_sorted: "sorted (b # ts) \<Longrightarrow> late b ts = 0"
  by (induction ts arbitrary: b) auto

lemma climb_late:
  assumes "lo \<le> b" and "b \<le> e" and "\<forall>t \<in> set ts. lo \<le> t \<and> t \<le> e"
  shows "climb b ts \<le> (e - b) + (e - lo) * late b ts"
  using assms
proof (induction ts arbitrary: b)
  case (Cons t ts)
  have IH: "climb t ts \<le> (e - t) + (e - lo) * late t ts" using Cons by simp
  have "(t - b) + (e - t) \<le> (e - b) + (e - lo) * of_bool (t < b)"
    using Cons.prems by (cases "t < b") auto
  with IH show ?case by (simp add: distrib_left)
qed simp

text \<open>The bucket of an operation that was full at \<open>t0\<close>, and the calls that it lets through.\<close>

definition ceiling_full :: "RateLimiter \<Rightarrow> instant \<Rightarrow> Bucket" where
  "ceiling_full l t0 = \<lparr>tokens = global_capacity l, bucket_last = t0\<rparr>"

definition ceiling_bucket :: "RateLimiter \<Rightarrow> instant \<Rightarrow> reading list \<Rightarrow> string \<Rightarrow> Bucket" where
  "ceiling_bucket l t0 rs op =
     bucket_after (global_capacity l) (global_refill_per_sec l) (ceiling_full l t0) (op_readings op rs)"

definition grants :: "RateLimiter \<Rightarrow> instant \<Rightarrow> reading list \<Rightarrow> string \<Rightarrow> nat" where
  "grants l t0 rs op =
     taken (global_capacity l) (global_refill_per_sec l) (ceiling_full l t0) (op_readings op rs)"

definition follows_readings :: "instant \<Rightarrow> RateLimiter \<Rightarrow> reading list \<Rightarrow> bool" where
  "follows_readings t0 l rs \<longleftrightarrow>
     (\<forall>op. (map_of (global l) op = None \<longrightarrow> op_readings op rs = []) \<and>
       (\<forall>b. map_of (global l) op = Some b \<longrightarrow> b = ceiling_bucket l t0 rs op))"

lemma follows_readings_start: "global l = [] \<Longrightarrow> follows_readings t0 l []"
  by (simp add: follows_readings_def)

lemma grants_start [simp]: "grants l t0 [] op = 0"
  by (simp add: grants_def)

lemma same_config_ceiling:
  assumes "same_config l l'"
  shows "ceiling_bucket l' t0 rs op = ceiling_bucket l t0 rs op" and "grants l' t0 rs op = grants l t0 rs op"
  using assms by (simp_all add: same_config_def ceiling_bucket_def grants_def ceiling_full_def)

text \<open>The section of the ceiling decides like that bucket.\<close>

lemma ceiling_take:
  assumes "token_bucket (global_capacity l) (global_refill_per_sec l)" and "follows_readings t0 l rs"
  shows "take_token (global_bucket l now op) now (global_capacity l) (global_refill_per_sec l) =
    take_token (ceiling_bucket l t0 rs op) now (global_capacity l) (global_refill_per_sec l)"
proof (cases "map_of (global l) op")
  case None
  then have "op_readings op rs = []"
    using assms(2) unfolding follows_readings_def by blast
  then have b: "ceiling_bucket l t0 rs op = ceiling_full l t0"
    by (simp add: ceiling_bucket_def bucket_after_def)
  show ?thesis
    unfolding b using None token_bucket.full_refilled [OF assms(1)]
    by (intro take_token_cong) (simp add: global_bucket_def entry_or_def ceiling_full_def)
next
  case (Some b)
  then have "b = ceiling_bucket l t0 rs op"
    using assms(2) unfolding follows_readings_def by blast
  with Some show ?thesis by (simp add: global_bucket_def entry_or_def)
qed

lemma ceiling_section:
  assumes "token_bucket (global_capacity l) (global_refill_per_sec l)" and "follows_readings t0 l rs"
    and "global_section l now o' = (ok, l')"
  shows "follows_readings t0 l' (rs @ [(now, o')])"
    and "grants l' t0 (rs @ [(now, o')]) op = grants l t0 rs op + of_bool (ok \<and> o' = op)"
proof -
  note take = ceiling_take [OF assms(1,2)]
  have l': "l' = snd (global_section l now o')" and ok: "ok = fst (global_section l now o')"
    using assms(3) by simp_all
  have cfg: "same_config l l'" unfolding l' by (rule same_config_sections)
  have ok': "ok = fst (take_token (ceiling_bucket l t0 rs o') now (global_capacity l) (global_refill_per_sec l))"
    unfolding ok take [symmetric] by (simp add: global_section_eq)
  have g: "map_of (global l') = (map_of (global l))(o' \<mapsto>
      snd (take_token (ceiling_bucket l t0 rs o') now (global_capacity l) (global_refill_per_sec l)))"
    unfolding l' global_section_eq update_conv' take ..
  have b: "ceiling_bucket l' t0 (rs @ [(now, o')]) p = (if o' = p
      then snd (take_token (ceiling_bucket l t0 rs o') now (global_capacity l) (global_refill_per_sec l))
      else ceiling_bucket l t0 rs p)" for p
    unfolding same_config_ceiling(1) [OF cfg] by (simp add: ceiling_bucket_def bucket_after_snoc)
  show "follows_readings t0 l' (rs @ [(now, o')])"
    using assms(2) by (simp add: follows_readings_def g b)
  show "grants l' t0 (rs @ [(now, o')]) op = grants l t0 rs op + of_bool (ok \<and> o' = op)"
    unfolding same_config_ceiling(2) [OF cfg]
    by (simp add: grants_def taken_snoc ok' ceiling_bucket_def)
qed

lemma tenant_section_readings:
  assumes "tenant_section l now tenant op = (ok, l')"
  shows "follows_readings t0 l' rs \<longleftrightarrow> follows_readings t0 l rs" and "grants l' t0 rs = grants l t0 rs"
proof -
  have l': "l' = snd (tenant_section l now tenant op)" using assms by simp
  have cfg: "same_config l l'" unfolding l' by (rule same_config_sections)
  have "global l' = global l" unfolding l' by (rule tenant_section_eq(3)) simp
  then show "follows_readings t0 l' rs \<longleftrightarrow> follows_readings t0 l rs"
    by (simp add: follows_readings_def same_config_ceiling [OF cfg])
  show "grants l' t0 rs = grants l t0 rs" by (simp add: fun_eq_iff same_config_ceiling [OF cfg])
qed

section \<open>Bounds\<close>

lemma grants_climb:
  assumes "token_bucket (global_capacity l) (global_refill_per_sec l)" and "1 \<le> global_capacity l"
  shows "of_nat (grants l t0 rs op) \<le> global_capacity l
    + of_nat (climb t0 (op_readings op rs)) / 1000000000 * global_refill_per_sec l * (1 + 1 / 2 ^ 53) ^ 3
    + of_nat (length (op_readings op rs)) * (global_capacity l / 2 ^ 52)"
  using token_bucket.taken_climb [OF assms(1) token_bucket.fresh_ok [OF assms(1)] assms(2), of t0]
  by (simp add: grants_def ceiling_full_def)

lemma grants_frozen:
  assumes "token_bucket (global_capacity l) (global_refill_per_sec l)" and "global_refill_per_sec l = 0"
  shows "grants l t0 rs op = min (length (op_readings op rs)) (nat \<lfloor>global_capacity l\<rfloor>)"
  using token_bucket.taken_frozen [OF assms(1) token_bucket.fresh_ok [OF assms(1)]] assms(2)
  by (simp add: grants_def ceiling_full_def)

text \<open>With the limits of \<open>default_limiter\<close> the roundings do not add up to one more call.\<close>

lemma default_grants:
  assumes "same_config (default_limiter order) l" and "climb t0 (op_readings op rs) \<le> s * 1000000000"
    and "s \<le> 1000000000" and "length (op_readings op rs) \<le> 1000000000"
  shows "grants l t0 rs op \<le> 6000 + 1000 * s"
proof -
  define G where "G = grants (default_limiter order) t0 rs op"
  define n where "n = (of_nat (length (op_readings op rs)) :: rat)"
  define c where "c = (of_nat (climb t0 (op_readings op rs)) / 1000000000 :: rat)"
  have s: "(of_nat s :: rat) \<le> 1000000000"
    using assms(3) by (metis of_nat_le_iff of_nat_numeral)
  have n: "n \<le> 1000000000"
    using assms(4) unfolding n_def by (metis of_nat_le_iff of_nat_numeral)
  have "(of_nat (climb t0 (op_readings op rs)) :: rat) \<le> of_nat (s * 1000000000)"
    using assms(2) by (simp only: of_nat_le_iff)
  then have c: "c \<le> of_nat s" by (simp add: c_def)
  have "(of_nat G :: rat) \<le> 6000 + c * 1000 * (1 + 1 / 2 ^ 53) ^ 3 + n * (6000 / 2 ^ 52)"
    using grants_climb [of "default_limiter order" t0 rs op] default_global.token_bucket_axioms
    by (simp add: G_def c_def n_def)
  also have "c * 1000 * (1 + 1 / 2 ^ 53) ^ 3 \<le> of_nat s * 1000 * (1 + 1 / 2 ^ 53) ^ 3"
    using c by (intro mult_right_mono) simp_all
  also have "of_nat s * 1000 * (1 + 1 / 2 ^ 53) ^ 3 \<le> of_nat s * 1000 * (1 + 4 / 2 ^ 53 :: rat)"
    by (intro mult_left_mono) (simp_all add: power3_eq_cube)
  also have "\<dots> \<le> of_nat s * 1000 + 1 / 2" using s by simp
  also have "n * (6000 / 2 ^ 52) \<le> 1000000000 * (6000 / 2 ^ 52)"
    using n by (rule mult_right_mono) simp
  finally have "(of_nat G :: rat) < of_nat (6000 + 1000 * s + 1)" by simp
  then show ?thesis
    unfolding G_def of_nat_less_iff by (simp add: same_config_ceiling(2) [OF assms(1)])
qed

end
