(* ===== verification/Rate_Limiter_Threads.thy ===== *)
theory Rate_Limiter_Threads
  imports Rate_Limiter_Readings
begin

text \<open>
  \<open>RateLimiter::allow\<close> under concurrency. The limiter is shared behind two mutexes, and a call
  is three steps that other threads may separate: it reads the clock, it runs the section under
  the lock of \<open>global\<close>, it runs the section under the lock of \<open>buckets\<close>. A poisoned lock is
  recovered with the map as it is (\<open>into_inner\<close>), so locking itself is not a step that can
  fail. \<open>granted\<close> and \<open>admitted_log\<close> are ghost logs of the operations that passed the first and
  the second section, and \<open>readings\<close> one of the clock values with which the calls came to the first.
\<close>

datatype pc =
    Idle
  | Clock_Read instant string string
  | Ceiling_Passed instant string string

record System =
  limiter :: RateLimiter
  clock :: instant
  pcs :: "nat \<Rightarrow> pc"
  granted :: "string list"
  admitted_log :: "string list"
  readings :: "reading list"

definition init_system :: "RateLimiter \<Rightarrow> instant \<Rightarrow> System" where
  "init_system l now =
     \<lparr>limiter = l, clock = now, pcs = (\<lambda>_. Idle), granted = [], admitted_log = [], readings = []\<rparr>"

inductive sys_step :: "System \<Rightarrow> System \<Rightarrow> bool" where
  tick: "clock s \<le> t \<Longrightarrow> sys_step s (s\<lparr>clock := t\<rparr>)"
| read_clock: "pcs s i = Idle \<Longrightarrow>
     sys_step s (s\<lparr>pcs := (pcs s)(i := Clock_Read (clock s) tenant op)\<rparr>)"
| ceiling_refuses: "pcs s i = Clock_Read now tenant op \<Longrightarrow> global_section (limiter s) now op = (False, l) \<Longrightarrow>
     sys_step s (s\<lparr>limiter := l, pcs := (pcs s)(i := Idle), readings := readings s @ [(now, op)]\<rparr>)"
| ceiling_grants: "pcs s i = Clock_Read now tenant op \<Longrightarrow> global_section (limiter s) now op = (True, l) \<Longrightarrow>
     sys_step s (s\<lparr>limiter := l, pcs := (pcs s)(i := Ceiling_Passed now tenant op), granted := op # granted s,
       readings := readings s @ [(now, op)]\<rparr>)"
| tenant_refuses: "pcs s i = Ceiling_Passed now tenant op \<Longrightarrow> tenant_section (limiter s) now tenant op = (False, l) \<Longrightarrow>
     sys_step s (s\<lparr>limiter := l, pcs := (pcs s)(i := Idle)\<rparr>)"
| tenant_admits: "pcs s i = Ceiling_Passed now tenant op \<Longrightarrow> tenant_section (limiter s) now tenant op = (True, l) \<Longrightarrow>
     sys_step s (s\<lparr>limiter := l, pcs := (pcs s)(i := Idle), admitted_log := op # admitted_log s\<rparr>)"

inductive reachable :: "System \<Rightarrow> System \<Rightarrow> bool" for s0 where
  start: "reachable s0 s0"
| step: "reachable s0 s \<Longrightarrow> sys_step s s' \<Longrightarrow> reachable s0 s'"

inductive_simps sys_step_iff: "sys_step s s'"
inductive_cases sys_stepE: "sys_step s s'"

lemma global_section_snd: "global_section l now op = (ok, l') \<Longrightarrow> snd (global_section l now op) = l'"
  and tenant_section_snd: "tenant_section l now tenant op = (ok, l') \<Longrightarrow> snd (tenant_section l now tenant op) = l'"
  by simp_all

section \<open>Invariants of every interleaving\<close>

lemma reachable_limiter_ok:
  "reachable s0 s \<Longrightarrow> limiter_ok (limiter s0) \<Longrightarrow>
     limiter_ok (limiter s) \<and> same_config (limiter s0) (limiter s)"
proof (induction rule: reachable.induct)
  case (step s s')
  then have IH: "limiter_ok (limiter s)" "same_config (limiter s0) (limiter s)" by auto
  have "limiter_ok (limiter s') \<and> same_config (limiter s) (limiter s')"
    using step.hyps(2) limiter_ok_global_section [OF IH(1)] limiter_ok_tenant_section [OF IH(1)]
      same_config_sections [of "limiter s"]
    by (cases rule: sys_step.cases) (simp_all add: IH(1), (metis snd_conv)+)
  with IH(2) show ?case by (auto intro: same_config_trans)
qed simp

text \<open>What passed the first section is what the readings take out of a bucket, whatever their order, and
  every reading lies between the start and the present.\<close>

definition carries :: "pc \<Rightarrow> instant set" where
  "carries p = (case p of Clock_Read now _ _ \<Rightarrow> {now} | _ \<Rightarrow> {})"

lemma carries_simps [simp]:
  "carries Idle = {}" "carries (Clock_Read now tenant op) = {now}" "carries (Ceiling_Passed now tenant op) = {}"
  by (simp_all add: carries_def)

definition window :: "instant \<Rightarrow> System \<Rightarrow> bool" where
  "window t0 s \<longleftrightarrow> t0 \<le> clock s \<and> (\<forall>i. carries (pcs s i) \<subseteq> {t0..clock s}) \<and>
     fst ` set (readings s) \<subseteq> {t0..clock s}"

lemma window_step:
  assumes "sys_step s s'" and "window t0 s"
  shows "window t0 s'"
proof -
  have w: "t0 \<le> clock s" "\<And>i. carries (pcs s i) \<subseteq> {t0..clock s}" "fst ` set (readings s) \<subseteq> {t0..clock s}"
    using assms(2) by (simp_all add: window_def)
  from assms(1) show ?thesis
  proof cases
    case (tick t)
    then have "{t0..clock s} \<subseteq> {t0..clock s'}" by auto
    with w have "carries (pcs s i) \<subseteq> {t0..clock s'}" "fst ` set (readings s) \<subseteq> {t0..clock s'}" for i
      by (blast intro: order_trans)+
    with w(1) tick show ?thesis by (simp add: window_def)
  next
    case (ceiling_refuses i now tenant op l)
    with w w(2) [of i] show ?thesis by (simp add: window_def)
  next
    case (ceiling_grants i now tenant op l)
    with w w(2) [of i] show ?thesis by (simp add: window_def)
  qed (use w in \<open>simp_all add: window_def\<close>)
qed

lemma granted_by_readings:
  assumes "reachable (init_system l t0) s" and "limiter_ok l" and "global l = []"
  shows "follows_readings t0 (limiter s) (readings s) \<and> window t0 s \<and>
    count_list (granted s) op = grants l t0 (readings s) op"
  using assms(1)
proof (induction rule: reachable.induct)
  case start
  then show ?case using assms(3) by (simp add: init_system_def follows_readings_start window_def)
next
  case (step s s')
  have cfg: "same_config l (limiter s)" "limiter_ok (limiter s)"
    using reachable_limiter_ok [OF step.hyps(1)] assms(2) by (simp_all add: init_system_def)
  note gr = same_config_ceiling(2) [OF cfg(1)]
  have F: "follows_readings t0 (limiter s) (readings s)"
    and C: "count_list (granted s) op = grants l t0 (readings s) op" using step.IH by simp_all
  have w: "window t0 s'" using window_step [OF step.hyps(2)] step.IH by simp
  have tb: "token_bucket (global_capacity (limiter s)) (global_refill_per_sec (limiter s))"
    using cfg(2) by (simp add: limiter_ok_def)
  from step.hyps(2) show ?case
  proof cases
    case (ceiling_refuses i now tenant o' l')
    note sec = ceiling_section [OF tb F ceiling_refuses(3)]
    have "same_config l l'" using same_config_trans [OF cfg(1) same_config_sections(1), of now o'] ceiling_refuses(3) by simp
    from same_config_ceiling(2) [OF this] sec(2) [of op] gr C w sec(1) ceiling_refuses(1) show ?thesis by simp
  next
    case (ceiling_grants i now tenant o' l')
    note sec = ceiling_section [OF tb F ceiling_grants(3)]
    have "same_config l l'" using same_config_trans [OF cfg(1) same_config_sections(1), of now o'] ceiling_grants(3) by simp
    from same_config_ceiling(2) [OF this] sec(2) [of op] gr C w sec(1) ceiling_grants(1) show ?thesis by simp
  next
    case (tenant_refuses i now tenant o' l')
    with F C w tenant_section_readings(1) [OF tenant_refuses(3)] show ?thesis by simp
  next
    case (tenant_admits i now tenant o' l')
    with F C w tenant_section_readings(1) [OF tenant_admits(3)] show ?thesis by simp
  qed (use F C w in simp_all)
qed

text \<open>Admissions and calls between the two sections never exceed the grants.\<close>

definition in_flight :: "System \<Rightarrow> string \<Rightarrow> nat set" where
  "in_flight s op = {i. \<exists>now tenant. pcs s i = Ceiling_Passed now tenant op}"

lemma admitted_in_flight:
  assumes "reachable (init_system l now0) s"
  shows "finite (in_flight s op) \<and>
    count_list (admitted_log s) op + card (in_flight s op) \<le> count_list (granted s) op"
  using assms
proof (induction rule: reachable.induct)
  case start
  then show ?case by (simp add: init_system_def in_flight_def)
next
  case (step s s')
  from step.hyps(2) show ?case
  proof cases
    case (read_clock i tenant o')
    then have "in_flight s' op = in_flight s op" by (auto simp: in_flight_def)
    with read_clock step.IH show ?thesis by simp
  next
    case (ceiling_refuses i now tenant o' l')
    then have "in_flight s' op = in_flight s op" by (auto simp: in_flight_def)
    with ceiling_refuses step.IH show ?thesis by simp
  next
    case (ceiling_grants i now tenant o' l')
    then have "in_flight s' op = (if op = o' then insert i (in_flight s op) else in_flight s op)"
      by (auto simp: in_flight_def)
    moreover have "i \<notin> in_flight s op" using ceiling_grants by (simp add: in_flight_def)
    ultimately show ?thesis using ceiling_grants step.IH by simp
  next
    case (tenant_refuses i now tenant o' l')
    then have "in_flight s' op = in_flight s op - {i}" by (auto simp: in_flight_def)
    moreover have "card (in_flight s op - {i}) \<le> card (in_flight s op)" by (rule card_Diff1_le)
    ultimately show ?thesis using tenant_refuses step.IH by simp
  next
    case (tenant_admits i now tenant o' l')
    then have e: "in_flight s' op = in_flight s op - {i}" by (auto simp: in_flight_def)
    have "card (in_flight s op) = Suc (card (in_flight s op - {i}))" if "op = o'"
      using tenant_admits that step.IH by (intro card.remove) (auto simp: in_flight_def)
    moreover have "card (in_flight s op - {i}) \<le> card (in_flight s op)" by (rule card_Diff1_le)
    moreover have "admitted_log s' = o' # admitted_log s" "granted s' = granted s"
      using tenant_admits(1) by simp_all
    ultimately show ?thesis
      unfolding e using step.IH by (cases "op = o'") (simp_all only: count_list.simps if_True, simp_all)
  qed (use step.IH in \<open>simp_all add: in_flight_def\<close>)
qed

section \<open>Calls without interruption\<close>

lemma reachable_trans: "reachable a b \<Longrightarrow> reachable b c \<Longrightarrow> reachable a c"
  by (rotate_tac, induction rule: reachable.induct) (auto intro: reachable.step)

text \<open>A thread that runs its three steps in a row makes exactly the call \<open>allow\<close>.\<close>

lemma uninterrupted_call:
  assumes "pcs s i = Idle"
  obtains s' where "reachable s s'" "limiter s' = snd (allow (limiter s) (clock s) tenant op)"
    "clock s' = clock s" "pcs s' = pcs s"
    "granted s' = (if fst (global_section (limiter s) (clock s) op) then op # granted s else granted s)"
    "admitted_log s' = (if fst (allow (limiter s) (clock s) tenant op)
       then op # admitted_log s else admitted_log s)"
    "readings s' = readings s @ [(clock s, op)]"
proof -
  obtain ok l1 where g: "global_section (limiter s) (clock s) op = (ok, l1)" by fastforce
  obtain ok2 l2 where t: "tenant_section l1 (clock s) tenant op = (ok2, l2)" by fastforce
  define s1 where "s1 = s\<lparr>pcs := (pcs s)(i := Clock_Read (clock s) tenant op)\<rparr>"
  have s1: "reachable s s1"
    unfolding s1_def by (rule reachable.step [OF reachable.start sys_step.read_clock]) (rule assms)
  have idle: "(pcs s)(i := Idle) = pcs s" using assms by (simp add: fun_upd_idem)
  show ?thesis
  proof (cases ok)
    case False
    define s2 where "s2 = s1\<lparr>limiter := l1, pcs := (pcs s1)(i := Idle),
      readings := readings s1 @ [(clock s, op)]\<rparr>"
    have "sys_step s1 s2"
      unfolding s2_def by (rule sys_step.ceiling_refuses) (use g False in \<open>simp_all add: s1_def\<close>)
    with s1 have "reachable s s2" by (rule reachable.step)
    then show ?thesis
      by (rule that) (use g False idle in \<open>simp_all add: s2_def s1_def allow_def\<close>)
  next
    case True
    define s2 where "s2 = s1\<lparr>limiter := l1,
      pcs := (pcs s1)(i := Ceiling_Passed (clock s) tenant op), granted := op # granted s1,
      readings := readings s1 @ [(clock s, op)]\<rparr>"
    have "sys_step s1 s2"
      unfolding s2_def by (rule sys_step.ceiling_grants) (use g True in \<open>simp_all add: s1_def\<close>)
    with s1 have s2: "reachable s s2" by (rule reachable.step)
    define s3 where "s3 = s2\<lparr>limiter := l2, pcs := (pcs s2)(i := Idle),
      admitted_log := (if ok2 then op # admitted_log s2 else admitted_log s2)\<rparr>"
    have "sys_step s2 s3"
    proof (cases ok2)
      case True
      have "sys_step s2 (s2\<lparr>limiter := l2, pcs := (pcs s2)(i := Idle), admitted_log := op # admitted_log s2\<rparr>)"
        by (rule sys_step.tenant_admits) (use t True in \<open>simp_all add: s2_def s1_def\<close>)
      with True show ?thesis by (simp add: s3_def)
    next
      case False
      have "sys_step s2 (s2\<lparr>limiter := l2, pcs := (pcs s2)(i := Idle)\<rparr>)"
        by (rule sys_step.tenant_refuses) (use t False in \<open>simp_all add: s2_def s1_def\<close>)
      moreover have "s3 = s2\<lparr>limiter := l2, pcs := (pcs s2)(i := Idle)\<rparr>"
        using False by (simp add: s3_def)
      ultimately show ?thesis by simp
    qed
    with s2 have "reachable s s3" by (rule reachable.step)
    then show ?thesis
      by (rule that) (use g t True idle in \<open>simp_all add: s3_def s2_def s1_def allow_def\<close>)
  qed
qed

text \<open>The tokens that a call on \<open>op\<close> made now would find.\<close>

definition available :: "System \<Rightarrow> string \<Rightarrow> rat" where
  "available s op = refilled (global_bucket (limiter s) (clock s) op) (clock s)
     (global_capacity (limiter s)) (global_refill_per_sec (limiter s))"

lemma global_bucket_tokens_indep: "tokens (global_bucket l t op) = tokens (global_bucket l t' op)"
  by (simp add: global_bucket_def entry_or_def split: option.splits)

text \<open>A limiter for which all tenants so far were invented, the next one being new to it.\<close>

definition invented :: "nat \<Rightarrow> string" where
  "invented k = replicate k CHR ''x''"

definition invented_below :: "nat \<Rightarrow> RateLimiter \<Rightarrow> bool" where
  "invented_below n l \<longleftrightarrow> limiter_ok l \<and> 1 \<le> capacity l \<and>
     (\<forall>(tenant, op) \<in> fst ` set (buckets l). length tenant < n)"

lemma invented_below_allow:
  assumes "invented_below n l"
  shows "invented_below (Suc n) (snd (allow l now (invented n) op))"
    and "fst (allow l now (invented n) op) \<longleftrightarrow>
      1 \<le> refilled (global_bucket l now op) now (global_capacity l) (global_refill_per_sec l)"
proof -
  have l: "limiter_ok l" "1 \<le> capacity l" "\<forall>(tenant, op) \<in> fst ` set (buckets l). length tenant < n"
    using assms by (simp_all add: invented_below_def)
  have "\<forall>(tenant, o') \<in> fst ` set (buckets (snd (allow l now (invented n) op))). length tenant < Suc n"
    using allow_keys [of l now "invented n" op] l(3) by (fastforce simp: invented_def)
  then show "invented_below (Suc n) (snd (allow l now (invented n) op))"
    using limiter_ok_allow_step [OF l(1)] l(2) by (simp add: invented_below_def)
  have "(invented n, op) \<notin> fst ` set (buckets l)" using l(3) by (auto simp: invented_def)
  then show "fst (allow l now (invented n) op) \<longleftrightarrow>
      1 \<le> refilled (global_bucket l now op) now (global_capacity l) (global_refill_per_sec l)"
    by (rule allow_new_tenant [OF l(1,2)])
qed

lemma one_call:
  assumes "invented_below n (limiter s)" and "pcs s i = Idle" and "available s op = of_nat (Suc m)"
  obtains s' where "reachable s s'" "pcs s' = pcs s" "clock s' = clock s"
    "admitted_log s' = op # admitted_log s" "invented_below (Suc n) (limiter s')"
    "same_config (limiter s) (limiter s')" "available s' op = of_nat m"
    "bucket_last (global_bucket (limiter s') (clock s) op) = clock s"
proof -
  define now where "now = clock s"
  obtain s' where s': "reachable s s'" "limiter s' = snd (allow (limiter s) now (invented n) op)"
    "clock s' = now" "pcs s' = pcs s"
    "admitted_log s' = (if fst (allow (limiter s) now (invented n) op) then op # admitted_log s else admitted_log s)"
    using uninterrupted_call [OF assms(2), of "invented n" op] unfolding now_def by metis
  note new = invented_below_allow [OF assms(1), of now op]
  have ok: "limiter_ok (limiter s)" using assms(1) by (simp add: invented_below_def)
  then have tb: "token_bucket (global_capacity (limiter s)) (global_refill_per_sec (limiter s))"
    by (simp add: limiter_ok_def)
  have ok': "limiter_ok (limiter s')"
    unfolding s'(2) by (rule limiter_ok_allow_step [OF ok])
  have gb: "global_bucket (limiter s') t op = snd (take_token (global_bucket (limiter s) now op) now
      (global_capacity (limiter s)) (global_refill_per_sec (limiter s)))" for t
    unfolding s'(2) by (simp add: global_bucket_allow)
  have av: "refilled (global_bucket (limiter s) now op) now (global_capacity (limiter s))
      (global_refill_per_sec (limiter s)) = of_nat (Suc m)"
    using assms(3) by (simp add: available_def now_def)
  have tok: "tokens (global_bucket (limiter s') now op) = of_nat m"
    unfolding gb using token_bucket.take_tokens [OF tb global_bucket_ok [OF ok]] av by simp
  have last: "bucket_last (global_bucket (limiter s') now op) = now" by (simp add: gb)
  have "available s' op = of_nat m"
    unfolding available_def s'(3) using frozen_global(1) [OF ok', of now op] last tok by simp
  moreover have "admitted_log s' = op # admitted_log s" using s'(5) new(2) av by simp
  moreover have "same_config (limiter s) (limiter s')" unfolding s'(2) by (rule same_config_allow)
  moreover have "invented_below (Suc n) (limiter s')" unfolding s'(2) by (rule new(1))
  ultimately show ?thesis
    by (intro that [of s']) (use s' last in \<open>simp_all add: now_def\<close>)
qed

lemma drain_calls:
  assumes "invented_below n (limiter s)" and "pcs s i = Idle" and "available s op = of_nat m" and "0 < m"
  obtains s' where "reachable s s'" "pcs s' = pcs s" "clock s' = clock s"
    "count_list (admitted_log s') op = m + count_list (admitted_log s) op"
    "invented_below (n + m) (limiter s')" "same_config (limiter s) (limiter s')"
    "tokens (global_bucket (limiter s') 0 op) = 0"
    "bucket_last (global_bucket (limiter s') (clock s) op) = clock s"
  using assms
proof (induction m arbitrary: s n thesis)
  case (Suc m)
  obtain s1 where s1: "reachable s s1" "pcs s1 = pcs s" "clock s1 = clock s"
    "admitted_log s1 = op # admitted_log s" "invented_below (Suc n) (limiter s1)"
    "same_config (limiter s) (limiter s1)" "available s1 op = of_nat m"
    "bucket_last (global_bucket (limiter s1) (clock s) op) = clock s"
    using one_call [OF Suc.prems(2-4)] by metis
  show ?case
  proof (cases m)
    case 0
    have ok: "limiter_ok (limiter s1)" using s1(5) by (simp add: invented_below_def)
    have "tokens (global_bucket (limiter s1) (clock s) op) = 0"
      using frozen_global(1) [OF ok, of "clock s" op] s1(3,7,8) 0 by (simp add: available_def)
    then have "tokens (global_bucket (limiter s1) 0 op) = 0"
      by (metis global_bucket_tokens_indep)
    with s1 0 show ?thesis by (intro Suc.prems(1) [of s1]) simp_all
  next
    case (Suc k)
    obtain s2 where s2: "reachable s1 s2" "pcs s2 = pcs s1" "clock s2 = clock s1"
      "count_list (admitted_log s2) op = m + count_list (admitted_log s1) op"
      "invented_below (Suc n + m) (limiter s2)"
      "same_config (limiter s1) (limiter s2)" "tokens (global_bucket (limiter s2) 0 op) = 0"
      "bucket_last (global_bucket (limiter s2) (clock s1) op) = clock s1"
      using Suc.IH [of s1 "Suc n"] s1 Suc.prems(3) Suc by auto
    with s1 show ?thesis
      by (intro Suc.prems(1) [of s2]) (auto intro: reachable_trans same_config_trans)
  qed
qed simp

text \<open>A drained ceiling of 50 that is refilled with 50 per second is full again a second later,
  and a thread can drain it again.\<close>

lemma global_bucket_present:
  "tokens (global_bucket l t op) \<noteq> global_capacity l \<Longrightarrow> global_bucket l t' op = global_bucket l t op"
  by (auto simp: global_bucket_def entry_or_def split: option.splits)

lemma fifty [simp]: "f64_mul 1 50 = 50"
  using f64_round_val [OF f64_val_of_nat [of 50]] by (simp add: f64_mul_def)

lemma second_of_credit:
  assumes "tokens b = 0" and "now - bucket_last b = 1000000000"
  shows "refilled b now 50 50 = 50"
  using assms as_secs_f64_whole [of 1] f64_round_val [OF f64_val_of_nat [of 50]]
  by (simp add: refilled_def elapsed_secs_def f64_add_def)

definition ceiling_of_50 :: "nat \<Rightarrow> RateLimiter \<Rightarrow> bool" where
  "ceiling_of_50 n l \<longleftrightarrow> invented_below n l \<and> global_capacity l = 50 \<and> global_refill_per_sec l = 50"

lemma second_of_calls:
  assumes "ceiling_of_50 n (limiter s)" and "pcs s i = Idle"
    and "tokens (global_bucket (limiter s) 0 op) = 0"
    and "clock s - bucket_last (global_bucket (limiter s) 0 op) = 1000000000"
  obtains s' where "reachable s s'" "pcs s' = pcs s" "clock s' = clock s"
    "count_list (admitted_log s') op = 50 + count_list (admitted_log s) op"
    "ceiling_of_50 (n + 50) (limiter s')"
    "tokens (global_bucket (limiter s') 0 op) = 0"
    "bucket_last (global_bucket (limiter s') 0 op) = clock s"
proof -
  have c: "invented_below n (limiter s)" "global_capacity (limiter s) = 50" "global_refill_per_sec (limiter s) = 50"
    using assms(1) by (simp_all add: ceiling_of_50_def)
  have "global_bucket (limiter s) (clock s) op = global_bucket (limiter s) 0 op"
    by (rule global_bucket_present) (simp add: assms(3) c)
  then have "available s op = of_nat 50"
    using second_of_credit [OF assms(3,4)] by (simp add: available_def c)
  then obtain s' where s': "reachable s s'" "pcs s' = pcs s" "clock s' = clock s"
    "count_list (admitted_log s') op = 50 + count_list (admitted_log s) op"
    "invented_below (n + 50) (limiter s')"
    "same_config (limiter s) (limiter s')" "tokens (global_bucket (limiter s') 0 op) = 0"
    "bucket_last (global_bucket (limiter s') (clock s) op) = clock s"
    using drain_calls [OF c(1) assms(2), of op 50] by auto
  have c': "ceiling_of_50 (n + 50) (limiter s')"
    using s'(5,6) c by (simp add: ceiling_of_50_def same_config_def)
  then have "global_bucket (limiter s') (clock s) op = global_bucket (limiter s') 0 op"
    by (intro global_bucket_present) (simp add: s'(7) ceiling_of_50_def)
  with s' c' show ?thesis by (intro that [of s']) simp_all
qed

text \<open>A call with an older clock value is refused by a drained ceiling, and sets its time back.\<close>

lemma late_call:
  assumes "ceiling_of_50 n (limiter s)" and "pcs s i = Clock_Read now tenant op"
    and "tokens (global_bucket (limiter s) 0 op) = 0"
    and "now \<le> bucket_last (global_bucket (limiter s) 0 op)"
  obtains s' where "sys_step s s'" "clock s' = clock s" "pcs s' = (pcs s)(i := Idle)"
    "admitted_log s' = admitted_log s" "ceiling_of_50 n (limiter s')"
    "tokens (global_bucket (limiter s') 0 op) = 0"
    "bucket_last (global_bucket (limiter s') 0 op) = now"
proof -
  have c: "invented_below n (limiter s)" "global_capacity (limiter s) = 50" "global_refill_per_sec (limiter s) = 50"
    using assms(1) by (simp_all add: ceiling_of_50_def)
  then have ok: "limiter_ok (limiter s)" by (simp add: invented_below_def)
  define l' where "l' = snd (global_section (limiter s) now op)"
  have b: "global_bucket (limiter s) now op = global_bucket (limiter s) 0 op"
    by (rule global_bucket_present) (simp add: assms(3) c)
  have r: "refilled (global_bucket (limiter s) now op) now 50 50 = 0"
    using frozen_global(1) [OF ok, of now op] assms(3,4) b c by simp
  then have g: "global_section (limiter s) now op = (False, l')"
    using c by (intro prod_eqI) (simp_all add: global_section_eq l'_def)
  have c': "ceiling_of_50 n l'"
    using limiter_ok_global_section [OF ok, of now op] same_config_sections(1) [of "limiter s" now op] c
    by (simp add: ceiling_of_50_def invented_below_def l'_def same_config_def global_section_eq)
  have gb: "global_bucket l' 0 op = snd (take_token (global_bucket (limiter s) now op) now 50 50)"
    by (simp add: l'_def global_bucket_def global_section_eq c)
  have "tokens (global_bucket l' 0 op) = 0"
    using r unfolding gb by (simp add: take_token_def)
  moreover have "bucket_last (global_bucket l' 0 op) = now" by (simp add: gb)
  moreover have "sys_step s (s\<lparr>limiter := l', pcs := (pcs s)(i := Idle), readings := readings s @ [(now, op)]\<rparr>)"
    using assms(2) g by (rule sys_step.ceiling_refuses)
  ultimately show ?thesis
    using c' by (intro that [of "s\<lparr>limiter := l', pcs := (pcs s)(i := Idle), readings := readings s @ [(now, op)]\<rparr>"])
      simp_all
qed

section \<open>A sample execution\<close>

lemma sample_call:
  obtains s where "reachable (init_system (new_limiter 1 1 id) 7) s" "admitted_log s = [''op'']"
    "readings s = [(7, ''op'')]"
proof -
  let ?l = "new_limiter 1 1 id" and ?s = "init_system (new_limiter 1 1 id) 7"
  have start: "pcs ?s 0 = Idle" "limiter ?s = ?l" "clock ?s = 7" "admitted_log ?s = []" "readings ?s = []"
    by (simp_all add: init_system_def)
  obtain s where s: "reachable ?s s"
    "admitted_log s = (if fst (allow ?l 7 ''t'' ''op'') then [''op''] else [])" "readings s = [(7, ''op'')]"
    using uninterrupted_call [OF start(1), of "''t''" "''op''"] unfolding start by (metis append_Nil)
  have "fst (allow ?l 7 ''t'' ''op'')"
    by (rule first_call_is_admitted) (simp_all add: limiter_ok_new)
  with s show ?thesis by (intro that) simp_all
qed

section \<open>Properties\<close>

text \<open>C19: under every interleaving of the clock reads and the two critical sections of any number of
  threads, the tenant map stays within its bound and every bucket between zero and its capacity.\<close>

theorem limiter_bounded_under_interleaving:
  assumes "0 \<le> r" and "\<forall>xs. mset (order xs) = mset xs"
    and "reachable (init_system (new_limiter c r order) t0) s"
  shows "length (buckets (limiter s)) \<le> 10000 \<and> distinct (map fst (buckets (limiter s))) \<and>
    (\<forall>b \<in> snd ` set (buckets (limiter s)). 0 \<le> tokens b \<and> tokens b \<le> of_nat (unat c)) \<and>
    (\<forall>b \<in> snd ` set (global (limiter s)). 0 \<le> tokens b \<and> tokens b \<le> of_nat (50 * unat c))"
proof -
  have "limiter_ok (limiter s)" and "same_config (new_limiter c r order) (limiter s)"
    using reachable_limiter_ok [OF assms(3)] limiter_ok_new [OF assms(1,2)]
    by (simp_all add: init_system_def)
  then show ?thesis
    by (auto simp: limiter_ok_def same_config_def buckets_ok_def bucket_ok_def f64_val_nonneg)
qed

theorem limiter_bounded_under_interleaving_witness:
  "\<exists>s. reachable (init_system (new_limiter 1 1 id) 7) s \<and> admitted_log s = [''op''] \<and>
     length (buckets (limiter s)) \<le> 10000"
proof -
  obtain s where s: "reachable (init_system (new_limiter 1 1 id) 7) s" "admitted_log s = [''op'']"
    by (rule sample_call)
  with limiter_bounded_under_interleaving [OF _ _ s(1)] show ?thesis by auto
qed

text \<open>C18: the ceiling under concurrency. However the threads are scheduled, the calls that an operation
  admits are at most fifty times the capacity, plus fifty times the refill for the time that the
  clock readings climb in the order in which they reach the lock, plus the roundings. The climb is
  the time since the start, and at most once more that time for every reading that comes to the
  lock later than a newer one. Without refill fifty times the capacity is the limit, whatever stale
  readings there are.\<close>

theorem ceiling_holds_under_interleaving:
  assumes "0 \<le> r" and "\<forall>xs. mset (order xs) = mset xs" and "0 < c"
    and "reachable (init_system (new_limiter c r order) t0) s"
    and "ts = op_readings op (readings s)"
  shows "of_nat (count_list (admitted_log s) op) \<le> of_nat (50 * unat c)
      + of_nat (climb t0 ts) / 1000000000 * f64_mul r 50 * (1 + 1 / 2 ^ 53) ^ 3
      + of_nat (length ts) * (of_nat (50 * unat c) / 2 ^ 52) \<and>
    climb t0 ts \<le> (clock s - t0) * (1 + late t0 ts) \<and>
    (r = 0 \<longrightarrow> count_list (admitted_log s) op \<le> 50 * unat c)"
proof (intro conjI impI)
  let ?l = "new_limiter c r order"
  have ok: "limiter_ok ?l" using assms(1,2) by (rule limiter_ok_new)
  then have tb: "token_bucket (global_capacity ?l) (global_refill_per_sec ?l)" by (simp add: limiter_ok_def)
  have c: "1 \<le> global_capacity ?l"
    using u32_pos_ge_one [OF assms(3)] unfolding new_capacity by (simp only: of_nat_mult)
  note R = granted_by_readings [OF assms(4) ok new_empty(2), of op]
  have le: "count_list (admitted_log s) op \<le> grants ?l t0 (readings s) op"
    using admitted_in_flight [OF assms(4), of op] R by simp
  then have "(of_nat (count_list (admitted_log s) op) :: rat) \<le> of_nat (grants ?l t0 (readings s) op)"
    by (simp only: of_nat_le_iff)
  also have "\<dots> \<le> of_nat (50 * unat c)
      + of_nat (climb t0 ts) / 1000000000 * f64_mul r 50 * (1 + 1 / 2 ^ 53) ^ 3
      + of_nat (length ts) * (of_nat (50 * unat c) / 2 ^ 52)"
    using grants_climb [OF tb c, of t0 "readings s" op] by (simp only: new_capacity new_empty assms(5))
  finally show "of_nat (count_list (admitted_log s) op) \<le> of_nat (50 * unat c)
      + of_nat (climb t0 ts) / 1000000000 * f64_mul r 50 * (1 + 1 / 2 ^ 53) ^ 3
      + of_nat (length ts) * (of_nat (50 * unat c) / 2 ^ 52)" .
  have w: "t0 \<le> clock s" "fst ` set (readings s) \<subseteq> {t0..clock s}" using R unfolding window_def by blast+
  then have "set ts \<subseteq> {t0..clock s}"
    using op_readings_fst [of op "readings s"] unfolding assms(5) by simp
  with w(1) have "\<forall>t \<in> set ts. t0 \<le> t \<and> t \<le> clock s" and "t0 \<le> clock s" by auto
  then show "climb t0 ts \<le> (clock s - t0) * (1 + late t0 ts)"
    using climb_late [of t0 t0 "clock s" ts] by simp
  assume "r = 0"
  then have "global_refill_per_sec ?l = 0" by (simp add: f64_mul_def)
  from grants_frozen [OF tb this, of t0 "readings s" op] have "grants ?l t0 (readings s) op \<le> 50 * unat c"
    unfolding new_capacity floor_of_nat nat_int by simp
  with le show "count_list (admitted_log s) op \<le> 50 * unat c" by simp
qed

theorem ceiling_holds_under_interleaving_witness:
  "\<exists>s. reachable (init_system (new_limiter 1 1 id) 7) s \<and> admitted_log s = [''op''] \<and>
     (of_nat (count_list (admitted_log s) ''op'') :: rat) \<le> 50 + 50 / 2 ^ 52"
proof -
  obtain s where s: "reachable (init_system (new_limiter 1 1 id) 7) s" "admitted_log s = [''op'']"
    "readings s = [(7, ''op'')]"
    by (rule sample_call)
  have "(of_nat (count_list (admitted_log s) ''op'') :: rat) \<le> 50 + 50 / 2 ^ 52"
    using ceiling_holds_under_interleaving [OF _ _ _ s(1) refl, of "''op''"] by (simp add: s(3))
  with s show ?thesis by blast
qed

text \<open>A thread that runs its clock read and its two sections without interruption performs exactly
  the call \<open>allow\<close>, and logs the admission exactly when \<open>allow\<close> returns true.\<close>

lemma uninterrupted_call_is_allow:
  assumes "pcs s i = Idle"
  shows "\<exists>s'. reachable s s' \<and> limiter s' = snd (allow (limiter s) (clock s) tenant op) \<and> pcs s' = pcs s \<and>
    admitted_log s' = (if fst (allow (limiter s) (clock s) tenant op) then op # admitted_log s else admitted_log s)"
  by (rule uninterrupted_call [OF assms, of tenant op]) blast

lemma uninterrupted_call_is_allow_witness:
  "\<exists>s'. reachable (init_system (new_limiter 1 0 id) 0) s' \<and>
     limiter s' = snd (allow (new_limiter 1 0 id) 0 ''t'' ''op'')"
  using uninterrupted_call_is_allow [of "init_system (new_limiter 1 0 id) 0" 3 "''t''" "''op''"]
  by (auto simp: init_system_def)

text \<open>C37: because a call reads the clock before it takes the lock, a delayed call sets a bucket's
  timestamp back, and the interval that was already credited is credited again. With a ceiling
  of 50 and a refill of 50 per second, 150 calls of as many tenants are admitted within one second
  instead of 100: with the one late reading, what the ceiling under
  concurrency allows for one late reading.\<close>

theorem stale_clock_credits_an_interval_twice:
  "\<exists>s. reachable (init_system (new_limiter 1 1 id) 0) s \<and> clock s = 1000000000 \<and>
     count_list (admitted_log s) ''op'' = 150"
proof -
  define l0 where "l0 = new_limiter 1 1 id"
  define s0 where "s0 = init_system l0 0"
  have ok0: "ceiling_of_50 0 l0"
    unfolding l0_def ceiling_of_50_def invented_below_def by (simp add: limiter_ok_new)
  define s1 where "s1 = s0\<lparr>pcs := (pcs s0)(0 := Clock_Read (clock s0) ''late'' ''op'')\<rparr>"
  have r1: "reachable s0 s1"
    unfolding s1_def by (rule reachable.step [OF reachable.start sys_step.read_clock])
      (simp add: s0_def init_system_def)
  have i1: "pcs s1 2 = Idle" "pcs s1 0 = Clock_Read 0 ''late'' ''op''" "limiter s1 = l0"
    "admitted_log s1 = []" "clock s1 = 0"
    by (simp_all add: s1_def s0_def init_system_def)
  have tb: "token_bucket 50 50" using ok0 by (auto simp: ceiling_of_50_def invented_below_def limiter_ok_def)
  have "available s1 ''op'' = of_nat 50"
    using token_bucket.fresh_refilled [OF tb, of 0]
    by (simp add: available_def i1 l0_def)
  then obtain s2 where s2: "reachable s1 s2" "pcs s2 = pcs s1" "clock s2 = 0"
    "count_list (admitted_log s2) ''op'' = 50" "invented_below (0 + 50) (limiter s2)" "same_config l0 (limiter s2)"
    "tokens (global_bucket (limiter s2) 0 ''op'') = 0" "bucket_last (global_bucket (limiter s2) 0 ''op'') = 0"
    using drain_calls [of 0 s1 2 "''op''" 50] i1 ok0 by (auto simp: ceiling_of_50_def)
  define s3 where "s3 = s2\<lparr>clock := 1000000000\<rparr>"
  have r3: "reachable s0 s3"
    unfolding s3_def
    by (rule reachable.step [OF reachable_trans [OF r1 s2(1)] sys_step.tick]) (simp add: s2)
  have "ceiling_of_50 50 (limiter s3)"
    using s2(5,6) ok0 by (simp add: s3_def ceiling_of_50_def same_config_def)
  then obtain s4 where s4: "reachable s3 s4" "pcs s4 = pcs s3" "clock s4 = clock s3"
    "count_list (admitted_log s4) ''op'' = 50 + count_list (admitted_log s3) ''op''" "ceiling_of_50 (50 + 50) (limiter s4)"
    "tokens (global_bucket (limiter s4) 0 ''op'') = 0"
    "bucket_last (global_bucket (limiter s4) 0 ''op'') = clock s3"
    by (rule second_of_calls [of 50 s3 2 "''op''"]) (simp_all add: s3_def s2 i1)
  obtain s5 where s5: "sys_step s4 s5" "clock s5 = clock s4" "pcs s5 = (pcs s4)(0 := Idle)"
    "admitted_log s5 = admitted_log s4" "ceiling_of_50 (50 + 50) (limiter s5)"
    "tokens (global_bucket (limiter s5) 0 ''op'') = 0"
    "bucket_last (global_bucket (limiter s5) 0 ''op'') = 0"
    by (rule late_call [OF s4(5), of 0 0 "''late''" "''op''"]) (simp_all add: s4 s3_def s2 i1)
  obtain s6 where s6: "reachable s5 s6" "clock s6 = clock s5"
    "count_list (admitted_log s6) ''op'' = 50 + count_list (admitted_log s5) ''op''"
    by (rule second_of_calls [OF s5(5), of 2 "''op''"]) (simp_all add: s5 s4 s3_def s2 i1)
  have "reachable s0 s6"
    using r3 s4(1) s5(1) s6(1) by (blast intro: reachable_trans reachable.step)
  then show ?thesis
    by (intro exI [of _ s6]) (simp add: s0_def l0_def s6 s5 s4 s3_def s2)
qed

end
