(* ===== verification/Rate_Limiter_Locks.thy ===== *)
theory Rate_Limiter_Locks
  imports Rate_Limiter_Threads
begin

text \<open>
  \<open>RateLimiter::allow\<close> with its two mutexes written out (\<open>crypto/src/limits.rs\<close>): a thread waits
  for a lock, works on the map behind it in several steps while other threads run, and releases the
  lock when the guard goes out of scope, the early \<open>return false\<close> included. What
  \<open>Rate_Limiter_Threads\<close> takes for one atomic section is a sequence of steps here; that
  this makes no difference is the refinement. \<open>old\<close>, the map before the eviction in progress, and
  the three logs are ghosts.
\<close>

section \<open>Threads and locks\<close>

datatype lock_pc =
    At_Rest
  | Has_Time instant string string
  | In_Global instant string string
  | Global_Taken bool instant string string
  | Between instant string string
  | In_Buckets instant string string
  | After_Evict instant string string "(bucket_key \<times> Bucket) list"
  | Buckets_Taken bool

record Locked =
  l_limiter :: RateLimiter
  l_clock :: instant
  l_pcs :: "nat \<Rightarrow> lock_pc"
  global_lock :: "nat option"
  buckets_lock :: "nat option"
  l_granted :: "string list"
  l_admitted :: "string list"
  l_readings :: "reading list"

definition init_locked :: "RateLimiter \<Rightarrow> instant \<Rightarrow> Locked" where
  "init_locked l now =
     \<lparr>l_limiter = l, l_clock = now, l_pcs = (\<lambda>_. At_Rest), global_lock = None, buckets_lock = None,
      l_granted = [], l_admitted = [], l_readings = []\<rparr>"

definition move :: "nat \<Rightarrow> lock_pc \<Rightarrow> Locked \<Rightarrow> Locked" where
  "move i pc s = s\<lparr>l_pcs := (l_pcs s)(i := pc)\<rparr>"

text \<open>The entry of the tenant in the map as it is, after eviction.\<close>

definition tenant_take :: "RateLimiter \<Rightarrow> instant \<Rightarrow> string \<Rightarrow> string \<Rightarrow> bool \<times> RateLimiter" where
  "tenant_take l now tenant op =
     (let key = (tenant, op);
          b = entry_or key \<lparr>tokens = capacity l, bucket_last = now\<rparr> (buckets l);
          (ok, b') = take_token b now (capacity l) (refill_per_sec l)
      in (ok, l\<lparr>buckets := AList.update key b' (buckets l)\<rparr>))"

text \<open>A step of thread \<open>i\<close> inside a call.\<close>

inductive thread_step :: "nat \<Rightarrow> Locked \<Rightarrow> Locked \<Rightarrow> bool" where
  lock_global: "l_pcs s i = Has_Time now tenant op \<Longrightarrow> global_lock s = None \<Longrightarrow>
     thread_step i s (move i (In_Global now tenant op) (s\<lparr>global_lock := Some i\<rparr>))"
| take_global: "l_pcs s i = In_Global now tenant op \<Longrightarrow> global_section (l_limiter s) now op = (ok, l) \<Longrightarrow>
     thread_step i s (move i (Global_Taken ok now tenant op)
       (s\<lparr>l_limiter := l, l_granted := (if ok then op # l_granted s else l_granted s),
          l_readings := l_readings s @ [(now, op)]\<rparr>))"
| unlock_global: "l_pcs s i = Global_Taken ok now tenant op \<Longrightarrow>
     thread_step i s (move i (if ok then Between now tenant op else At_Rest) (s\<lparr>global_lock := None\<rparr>))"
| lock_buckets: "l_pcs s i = Between now tenant op \<Longrightarrow> buckets_lock s = None \<Longrightarrow>
     thread_step i s (move i (In_Buckets now tenant op) (s\<lparr>buckets_lock := Some i\<rparr>))"
| evict_buckets: "l_pcs s i = In_Buckets now tenant op \<Longrightarrow>
     thread_step i s (move i (After_Evict now tenant op (buckets (l_limiter s)))
       (s\<lparr>l_limiter := (l_limiter s)\<lparr>buckets := evict (l_limiter s) now (buckets (l_limiter s))\<rparr>\<rparr>))"
| take_tenant: "l_pcs s i = After_Evict now tenant op old \<Longrightarrow> tenant_take (l_limiter s) now tenant op = (ok, l) \<Longrightarrow>
     thread_step i s (move i (Buckets_Taken ok)
       (s\<lparr>l_limiter := l, l_admitted := (if ok then op # l_admitted s else l_admitted s)\<rparr>))"
| unlock_buckets: "l_pcs s i = Buckets_Taken ok \<Longrightarrow>
     thread_step i s (move i At_Rest (s\<lparr>buckets_lock := None\<rparr>))"

text \<open>Time passes, a thread begins a call, or a thread goes on with its call.\<close>

inductive lock_step :: "Locked \<Rightarrow> Locked \<Rightarrow> bool" where
  lock_tick: "l_clock s \<le> t \<Longrightarrow> lock_step s (s\<lparr>l_clock := t\<rparr>)"
| lock_arrive: "l_pcs s i = At_Rest \<Longrightarrow> lock_step s (move i (Has_Time (l_clock s) tenant op) s)"
| lock_thread: "thread_step i s s' \<Longrightarrow> lock_step s s'"

inductive lock_reachable :: "Locked \<Rightarrow> Locked \<Rightarrow> bool" for s0 where
  lock_start: "lock_reachable s0 s0"
| lock_next: "lock_reachable s0 s \<Longrightarrow> lock_step s s' \<Longrightarrow> lock_reachable s0 s'"

lemma move_sel [simp]:
  "l_limiter (move i pc s) = l_limiter s" "l_clock (move i pc s) = l_clock s"
  "l_pcs (move i pc s) = (l_pcs s)(i := pc)" "global_lock (move i pc s) = global_lock s"
  "buckets_lock (move i pc s) = buckets_lock s" "l_granted (move i pc s) = l_granted s"
  "l_admitted (move i pc s) = l_admitted s" "l_readings (move i pc s) = l_readings s"
  by (simp_all add: move_def)

section \<open>Mutual exclusion\<close>

fun holds_global :: "lock_pc \<Rightarrow> bool" where
  "holds_global (In_Global _ _ _) = True"
| "holds_global (Global_Taken _ _ _ _) = True"
| "holds_global _ = False"

fun holds_buckets :: "lock_pc \<Rightarrow> bool" where
  "holds_buckets (In_Buckets _ _ _) = True"
| "holds_buckets (After_Evict _ _ _ _) = True"
| "holds_buckets (Buckets_Taken _) = True"
| "holds_buckets _ = False"

definition lock_inv :: "Locked \<Rightarrow> bool" where
  "lock_inv s \<longleftrightarrow>
     (\<forall>i. global_lock s = Some i \<longleftrightarrow> holds_global (l_pcs s i)) \<and>
     (\<forall>i. buckets_lock s = Some i \<longleftrightarrow> holds_buckets (l_pcs s i)) \<and>
     (\<forall>i now tenant op old. l_pcs s i = After_Evict now tenant op old \<longrightarrow>
        buckets (l_limiter s) = evict (l_limiter s) now old)"

lemma evict_config [simp]:
  "evict (l\<lparr>buckets := x\<rparr>) = evict l" "evict (l\<lparr>global := y\<rparr>) = evict l"
  by (simp_all add: fun_eq_iff evict_def lru_keys_def Let_def)

lemma evict_global_section [simp]: "evict (snd (global_section l now op)) = evict l"
  by (simp add: global_section_def Let_def split_beta)

lemma one_holder:
  assumes "lock_inv s"
  shows "holds_global (l_pcs s i) \<Longrightarrow> holds_global (l_pcs s j) \<Longrightarrow> i = j"
    and "holds_buckets (l_pcs s i) \<Longrightarrow> holds_buckets (l_pcs s j) \<Longrightarrow> i = j"
  using assms unfolding lock_inv_def by (metis option.inject)+

lemma lock_inv_start: "lock_inv (init_locked l now)"
  by (simp add: lock_inv_def init_locked_def)

lemma lock_inv_thread:
  assumes "thread_step i s s'" and "lock_inv s"
  shows "lock_inv s'"
  using assms
proof cases
  case (take_global now tenant op ok l)
  then have "buckets l = buckets (l_limiter s)" "evict l = evict (l_limiter s)"
    using global_section_eq(3) [of "l_limiter s" now op] evict_global_section [of "l_limiter s" now op] by simp_all
  with take_global assms(2) show ?thesis by (auto simp: lock_inv_def)
next
  case (evict_buckets now tenant op)
  with assms(2) one_holder(2) [OF assms(2), of i] show ?thesis by (fastforce simp: lock_inv_def)
next
  case (take_tenant now tenant op old ok l)
  with assms(2) one_holder(2) [OF assms(2), of i] show ?thesis by (fastforce simp: lock_inv_def)
next
  case (unlock_global ok now tenant op)
  with assms(2) one_holder(1) [OF assms(2), of i] show ?thesis by (fastforce simp: lock_inv_def)
next
  case (unlock_buckets ok)
  with assms(2) one_holder(2) [OF assms(2), of i] show ?thesis by (fastforce simp: lock_inv_def)
qed (auto simp: lock_inv_def)

lemma lock_inv_step:
  assumes "lock_step s s'" and "lock_inv s"
  shows "lock_inv s'"
  using assms
proof cases
  case (lock_thread i)
  with assms(2) lock_inv_thread show ?thesis by blast
qed (auto simp: lock_inv_def)

lemma lock_inv_reachable:
  assumes "lock_reachable s0 s" and "lock_inv s0"
  shows "lock_inv s"
  using assms(1)
proof (induction rule: lock_reachable.induct)
  case (lock_next s s')
  then show ?case by (auto intro: lock_inv_step)
qed (rule assms(2))

section \<open>The atomic system behind it\<close>

primrec abs_pc :: "lock_pc \<Rightarrow> pc" where
  "abs_pc At_Rest = Idle"
| "abs_pc (Has_Time now tenant op) = Clock_Read now tenant op"
| "abs_pc (In_Global now tenant op) = Clock_Read now tenant op"
| "abs_pc (Global_Taken ok now tenant op) = (if ok then Ceiling_Passed now tenant op else Idle)"
| "abs_pc (Between now tenant op) = Ceiling_Passed now tenant op"
| "abs_pc (In_Buckets now tenant op) = Ceiling_Passed now tenant op"
| "abs_pc (After_Evict now tenant op old) = Ceiling_Passed now tenant op"
| "abs_pc (Buckets_Taken ok) = Idle"

text \<open>An eviction in progress has not happened yet.\<close>

definition pending_map :: "Locked \<Rightarrow> (bucket_key \<times> Bucket) list" where
  "pending_map s =
     (case buckets_lock s of
        Some i \<Rightarrow> (case l_pcs s i of After_Evict _ _ _ old \<Rightarrow> old | _ \<Rightarrow> buckets (l_limiter s))
      | None \<Rightarrow> buckets (l_limiter s))"

definition abs_system :: "Locked \<Rightarrow> System" where
  "abs_system s =
     \<lparr>limiter = (l_limiter s)\<lparr>buckets := pending_map s\<rparr>, clock = l_clock s, pcs = abs_pc \<circ> l_pcs s,
      granted = l_granted s, admitted_log = l_admitted s, readings = l_readings s\<rparr>"

lemma abs_sel [simp]:
  "clock (abs_system s) = l_clock s" "pcs (abs_system s) i = abs_pc (l_pcs s i)"
  "granted (abs_system s) = l_granted s" "admitted_log (abs_system s) = l_admitted s"
  "readings (abs_system s) = l_readings s"
  "limiter (abs_system s) = (l_limiter s)\<lparr>buckets := pending_map s\<rparr>"
  by (simp_all add: abs_system_def)

lemma abs_system_eqI:
  assumes "limiter a = (l_limiter s)\<lparr>buckets := pending_map s\<rparr>" and "clock a = l_clock s"
    and "pcs a = abs_pc \<circ> l_pcs s" and "granted a = l_granted s" and "admitted_log a = l_admitted s"
    and "readings a = l_readings s"
  shows "abs_system s = a"
  using assms by (simp add: abs_system_def)

lemma abs_pc_fun_upd: "abs_pc \<circ> f(i := pc) = (abs_pc \<circ> f)(i := abs_pc pc)"
  by (rule ext) simp

fun evicting :: "lock_pc \<Rightarrow> bool" where
  "evicting (After_Evict _ _ _ _) = True"
| "evicting _ = False"

lemma pending_evicting:
  assumes "lock_inv s" and "l_pcs s i = After_Evict now tenant op old"
  shows "pending_map s = old"
proof -
  have "buckets_lock s = Some i" using assms by (simp add: lock_inv_def)
  with assms(2) show ?thesis by (simp add: pending_map_def)
qed

lemma pending_holder:
  assumes "buckets_lock s = Some i" and "\<not> evicting (l_pcs s i)"
  shows "pending_map s = buckets (l_limiter s)"
  using assms by (cases "l_pcs s i") (simp_all add: pending_map_def)

lemma pending_free: "buckets_lock s = None \<Longrightarrow> pending_map s = buckets (l_limiter s)"
  by (simp add: pending_map_def)

text \<open>A thread that neither begins nor ends an eviction leaves the pending map alone.\<close>

lemma pending_cong:
  assumes "buckets_lock s' = buckets_lock s" and "buckets (l_limiter s') = buckets (l_limiter s)"
    and "l_pcs s' = (l_pcs s)(i := pc)" and "\<not> evicting (l_pcs s i)" and "\<not> evicting pc"
  shows "pending_map s' = pending_map s"
proof (cases "buckets_lock s")
  case (Some j)
  show ?thesis
  proof (cases "j = i")
    case True
    with Some assms show ?thesis by (simp add: pending_holder)
  next
    case False
    with Some assms(1-3) show ?thesis by (simp add: pending_map_def split: lock_pc.split)
  qed
qed (use assms in \<open>simp add: pending_free\<close>)

lemma global_section_frame:
  "global_section (l\<lparr>buckets := m\<rparr>) now op =
     (fst (global_section l now op), (snd (global_section l now op))\<lparr>buckets := m\<rparr>)"
  by (simp add: global_section_def Let_def split_beta)

lemma tenant_section_split:
  assumes "buckets l = evict l now old"
  shows "tenant_section (l\<lparr>buckets := old\<rparr>) now tenant op =
    (fst (tenant_take l now tenant op), snd (tenant_take l now tenant op))"
  using assms by (simp add: tenant_section_def tenant_take_def Let_def split_beta)

lemma abs_move:
  assumes "l_pcs s' = (l_pcs s)(i := pc)" and "abs_pc pc = abs_pc (l_pcs s i)"
    and "(l_limiter s')\<lparr>buckets := pending_map s'\<rparr> = (l_limiter s)\<lparr>buckets := pending_map s\<rparr>"
    and "l_clock s' = l_clock s" and "l_granted s' = l_granted s" and "l_admitted s' = l_admitted s"
    and "l_readings s' = l_readings s"
  shows "abs_system s' = abs_system s"
proof -
  have "abs_pc \<circ> l_pcs s' = abs_pc \<circ> l_pcs s" using assms(1,2) by (auto simp: fun_eq_iff)
  with assms show ?thesis by (simp add: abs_system_def)
qed

lemma abs_move_update: "l_pcs s' = (l_pcs s)(i := pc) \<Longrightarrow>
    pcs (abs_system s') = (pcs (abs_system s))(i := abs_pc pc)"
  by (auto simp: fun_eq_iff)

lemma take_global_simulated:
  assumes "l_pcs s i = In_Global now tenant op" and "global_section (l_limiter s) now op = (ok, l)"
    and "s' = move i (Global_Taken ok now tenant op)
      (s\<lparr>l_limiter := l, l_granted := (if ok then op # l_granted s else l_granted s),
         l_readings := l_readings s @ [(now, op)]\<rparr>)"
  shows "sys_step (abs_system s) (abs_system s')"
proof -
  have m: "pending_map s' = pending_map s"
    using assms global_section_eq(3) [of "l_limiter s" now op]
    by (intro pending_cong [where i = i and pc = "Global_Taken ok now tenant op"]) simp_all
  have l': "l_limiter s' = l" by (simp add: assms(3))
  have g: "global_section (limiter (abs_system s)) now op = (ok, limiter (abs_system s'))"
    by (simp add: global_section_frame m l' assms(2))
  have pc: "pcs (abs_system s) i = Clock_Read now tenant op" by (simp add: assms(1))
  show ?thesis
  proof (cases ok)
    case True
    have "abs_system s' = (abs_system s)\<lparr>limiter := limiter (abs_system s'),
        pcs := (pcs (abs_system s))(i := Ceiling_Passed now tenant op), granted := op # granted (abs_system s),
        readings := readings (abs_system s) @ [(now, op)]\<rparr>"
      using True assms(3) by (intro abs_system_eqI) (auto simp: fun_eq_iff)
    with sys_step.ceiling_grants [OF pc, of "limiter (abs_system s')"] g True show ?thesis by metis
  next
    case False
    have "abs_system s' = (abs_system s)\<lparr>limiter := limiter (abs_system s'),
        pcs := (pcs (abs_system s))(i := Idle), readings := readings (abs_system s) @ [(now, op)]\<rparr>"
      using False assms(3) by (intro abs_system_eqI) (auto simp: fun_eq_iff)
    with sys_step.ceiling_refuses [OF pc, of "limiter (abs_system s')"] g False show ?thesis by metis
  qed
qed

lemma take_tenant_simulated:
  assumes "lock_inv s" and "l_pcs s i = After_Evict now tenant op old"
    and "tenant_take (l_limiter s) now tenant op = (ok, l)"
    and "s' = move i (Buckets_Taken ok)
      (s\<lparr>l_limiter := l, l_admitted := (if ok then op # l_admitted s else l_admitted s)\<rparr>)"
  shows "sys_step (abs_system s) (abs_system s')"
proof -
  have m: "pending_map s = old" by (rule pending_evicting [OF assms(1,2)])
  have "buckets_lock s' = Some i" using assms(1,2,4) by (simp add: lock_inv_def)
  then have m': "pending_map s' = buckets l" using assms(4) by (simp add: pending_holder)
  have l': "l_limiter s' = l" by (simp add: assms(4))
  have "buckets (l_limiter s) = evict (l_limiter s) now old" using assms(1,2) by (simp add: lock_inv_def)
  then have t: "tenant_section (limiter (abs_system s)) now tenant op = (ok, limiter (abs_system s'))"
    by (simp add: tenant_section_split m m' l' assms(3))
  have pc: "pcs (abs_system s) i = Ceiling_Passed now tenant op" by (simp add: assms(2))
  show ?thesis
  proof (cases ok)
    case True
    have "abs_system s' = (abs_system s)\<lparr>limiter := limiter (abs_system s'),
        pcs := (pcs (abs_system s))(i := Idle), admitted_log := op # admitted_log (abs_system s)\<rparr>"
      using True assms(4) by (intro abs_system_eqI) (auto simp: fun_eq_iff)
    with sys_step.tenant_admits [OF pc, of "limiter (abs_system s')"] t True show ?thesis by metis
  next
    case False
    have "abs_system s' = (abs_system s)\<lparr>limiter := limiter (abs_system s'),
        pcs := (pcs (abs_system s))(i := Idle)\<rparr>"
      using False assms(4) by (intro abs_system_eqI) (auto simp: fun_eq_iff)
    with sys_step.tenant_refuses [OF pc, of "limiter (abs_system s')"] t False show ?thesis by metis
  qed
qed

text \<open>Every step of a thread is a step of the atomic system, or none.\<close>

lemma thread_step_simulated:
  assumes "thread_step i s s'" and "lock_inv s"
  shows "abs_system s' = abs_system s \<or> sys_step (abs_system s) (abs_system s')"
  using assms(1)
proof cases
  case (lock_global now tenant op)
  have "pending_map s' = pending_map s"
    using lock_global by (intro pending_cong [where i = i and pc = "In_Global now tenant op"]) simp_all
  then have "abs_system s' = abs_system s"
    using lock_global by (intro abs_move [where i = i and pc = "In_Global now tenant op"]) simp_all
  then show ?thesis ..
next
  case (take_global now tenant op ok l)
  then show ?thesis using take_global_simulated by blast
next
  case (unlock_global ok now tenant op)
  let ?pc = "if ok then Between now tenant op else At_Rest"
  have "pending_map s' = pending_map s"
    using unlock_global by (intro pending_cong [where i = i and pc = ?pc]) simp_all
  then have "abs_system s' = abs_system s"
    using unlock_global by (intro abs_move [where i = i and pc = ?pc]) simp_all
  then show ?thesis ..
next
  case (lock_buckets now tenant op)
  have "pending_map s' = pending_map s"
    using lock_buckets by (simp add: pending_map_def)
  then have "abs_system s' = abs_system s"
    using lock_buckets by (intro abs_move [where i = i and pc = "In_Buckets now tenant op"]) simp_all
  then show ?thesis ..
next
  case (evict_buckets now tenant op)
  have h: "buckets_lock s = Some i" using assms(2) evict_buckets by (simp add: lock_inv_def)
  then have "pending_map s = buckets (l_limiter s)" using evict_buckets by (simp add: pending_holder)
  moreover have "pending_map s' = buckets (l_limiter s)" using h evict_buckets by (simp add: pending_map_def)
  ultimately have "abs_system s' = abs_system s"
    using evict_buckets
    by (intro abs_move [where i = i and pc = "After_Evict now tenant op (buckets (l_limiter s))"]) simp_all
  then show ?thesis ..
next
  case (take_tenant now tenant op old ok l)
  then show ?thesis using take_tenant_simulated [OF assms(2)] by blast
next
  case (unlock_buckets ok)
  have "buckets_lock s = Some i" using assms(2) unlock_buckets by (simp add: lock_inv_def)
  then have "pending_map s' = pending_map s"
    using unlock_buckets by (simp add: pending_free pending_holder)
  then have "abs_system s' = abs_system s"
    using unlock_buckets by (intro abs_move [where i = i and pc = At_Rest]) simp_all
  then show ?thesis ..
qed

lemma lock_step_simulated:
  assumes "lock_step s s'" and "lock_inv s"
  shows "abs_system s' = abs_system s \<or> sys_step (abs_system s) (abs_system s')"
  using assms(1)
proof cases
  case (lock_tick t)
  have "abs_system s' = (abs_system s)\<lparr>clock := t\<rparr>"
    using lock_tick(1) by (simp add: abs_system_def pending_map_def cong: option.case_cong lock_pc.case_cong)
  moreover have "sys_step (abs_system s) ((abs_system s)\<lparr>clock := t\<rparr>)"
    by (rule sys_step.tick) (simp add: lock_tick(2))
  ultimately show ?thesis by metis
next
  case (lock_arrive i tenant op)
  have m: "pending_map s' = pending_map s"
    using lock_arrive by (intro pending_cong [where i = i and pc = "Has_Time (l_clock s) tenant op"]) simp_all
  have "abs_system s' = (abs_system s)\<lparr>pcs := (pcs (abs_system s))(i := Clock_Read (clock (abs_system s)) tenant op)\<rparr>"
    using lock_arrive(1) m by (intro abs_system_eqI) (auto simp: fun_eq_iff)
  moreover have "pcs (abs_system s) i = Idle" using lock_arrive(2) by simp
  ultimately show ?thesis using sys_step.read_clock [of "abs_system s" i tenant op] by metis
next
  case (lock_thread i)
  then show ?thesis using thread_step_simulated assms(2) by blast
qed

lemma lock_reachable_simulated:
  assumes "lock_reachable (init_locked l now) s"
  shows "reachable (init_system l now) (abs_system s)"
  using assms
proof (induction rule: lock_reachable.induct)
  case lock_start
  have "abs_system (init_locked l now) = init_system l now"
    by (simp add: abs_system_def init_locked_def init_system_def pending_map_def o_def)
  then show ?case by (simp add: reachable.start)
next
  case (lock_next s s')
  have "lock_inv s" by (rule lock_inv_reachable [OF lock_next.hyps(1) lock_inv_start])
  from lock_step_simulated [OF lock_next.hyps(2) this] lock_next.IH show ?case
    by (auto intro: reachable.step)
qed

section \<open>Progress\<close>

fun rank :: "lock_pc \<Rightarrow> nat" where
  "rank At_Rest = 0"
| "rank (Has_Time _ _ _) = 7"
| "rank (In_Global _ _ _) = 6"
| "rank (Global_Taken _ _ _ _) = 5"
| "rank (Between _ _ _) = 4"
| "rank (In_Buckets _ _ _) = 3"
| "rank (After_Evict _ _ _ _) = 2"
| "rank (Buckets_Taken _) = 1"

definition active :: "Locked \<Rightarrow> nat set" where
  "active s = {i. l_pcs s i \<noteq> At_Rest}"

definition work_left :: "Locked \<Rightarrow> nat" where
  "work_left s = (\<Sum>i \<in> active s. rank (l_pcs s i))"

definition some_thread_step :: "Locked \<Rightarrow> Locked \<Rightarrow> bool" where
  "some_thread_step s s' \<longleftrightarrow> (\<exists>i. thread_step i s s')"

lemma rank_le: "rank pc \<le> 7"
  by (cases pc) simp_all

lemma thread_step_rank:
  assumes "thread_step i s s'"
  obtains pc where "l_pcs s' = (l_pcs s)(i := pc)" "rank pc < rank (l_pcs s i)"
proof -
  have "\<exists>pc. l_pcs s' = (l_pcs s)(i := pc) \<and> rank pc < rank (l_pcs s i)"
    using assms by cases (rule exI, rule conjI, simp, simp)+
  with that show ?thesis by blast
qed

lemma thread_step_work:
  assumes "thread_step i s s'" and "finite (active s)"
  shows "active s' \<subseteq> active s" and "work_left s' < work_left s"
proof -
  obtain pc where pc: "l_pcs s' = (l_pcs s)(i := pc)" "rank pc < rank (l_pcs s i)"
    by (rule thread_step_rank [OF assms(1)])
  then have i: "i \<in> active s" by (auto simp: active_def)
  with pc(1) show sub: "active s' \<subseteq> active s" by (auto simp: active_def)
  have "work_left s' = (\<Sum>j \<in> active s. rank (l_pcs s' j))"
    unfolding work_left_def using assms(2) sub by (intro sum.mono_neutral_left) (auto simp: active_def)
  also have "\<dots> < work_left s"
    unfolding work_left_def using assms(2) i pc by (intro sum_strict_mono_ex1) auto
  finally show "work_left s' < work_left s" .
qed

lemma work_left_le: "work_left s \<le> 7 * card (active s)"
  unfolding work_left_def using sum_bounded_above [of "active s" "\<lambda>i. rank (l_pcs s i)" 7] rank_le
  by (simp add: mult.commute)

lemma thread_steps_bounded:
  assumes "(some_thread_step ^^ n) s s'" and "finite (active s)"
  shows "n + work_left s' \<le> work_left s" and "finite (active s')"
proof -
  have "n + work_left s' \<le> work_left s \<and> finite (active s')"
    using assms
  proof (induction n arbitrary: s')
    case (Suc n)
    obtain t where t: "(some_thread_step ^^ n) s t" "some_thread_step t s'"
      using Suc.prems(1) by auto
    then obtain i where i: "thread_step i t s'" unfolding some_thread_step_def by blast
    have ih: "n + work_left t \<le> work_left s" "finite (active t)"
      using Suc.IH [OF t(1) Suc.prems(2)] by simp_all
    have "work_left s' < work_left t" by (rule thread_step_work(2) [OF i ih(2)])
    moreover have "finite (active s')" by (rule finite_subset [OF thread_step_work(1) [OF i ih(2)] ih(2)])
    ultimately show ?case using ih(1) by simp
  qed simp
  then show "n + work_left s' \<le> work_left s" "finite (active s')" by auto
qed

text \<open>Whoever waits for a lock waits for a thread that can go on.\<close>

lemma some_thread_can_go_on:
  assumes "lock_inv s" and "l_pcs s i \<noteq> At_Rest"
  shows "\<exists>s'. some_thread_step s s'"
proof -
  have G: "\<exists>s'. some_thread_step s s'" if "holds_global (l_pcs s j)" for j
    using that unfolding some_thread_step_def
    by (cases "l_pcs s j"; cases "global_section (l_limiter s) (l_clock s) []")
      (auto intro: thread_step.unlock_global thread_step.take_global [OF _ prod.collapse [symmetric]])
  have B: "\<exists>s'. some_thread_step s s'" if "holds_buckets (l_pcs s j)" for j
    using that unfolding some_thread_step_def
    by (cases "l_pcs s j")
      (auto intro: thread_step.evict_buckets thread_step.unlock_buckets
        thread_step.take_tenant [OF _ prod.collapse [symmetric]])
  show ?thesis
  proof (cases "holds_global (l_pcs s i) \<or> holds_buckets (l_pcs s i)")
    case True
    with G B show ?thesis by blast
  next
    case False
    then consider now tenant op where "l_pcs s i = Has_Time now tenant op"
      | now tenant op where "l_pcs s i = Between now tenant op"
      using assms(2) by (cases "l_pcs s i") auto
    then show ?thesis
    proof cases
      case (1 now tenant op)
      show ?thesis
      proof (cases "global_lock s")
        case None
        with 1 show ?thesis unfolding some_thread_step_def by (blast intro: thread_step.lock_global)
      next
        case (Some j)
        then have "holds_global (l_pcs s j)" using assms(1) unfolding lock_inv_def by blast
        then show ?thesis by (rule G)
      qed
    next
      case (2 now tenant op)
      show ?thesis
      proof (cases "buckets_lock s")
        case None
        with 2 show ?thesis unfolding some_thread_step_def by (blast intro: thread_step.lock_buckets)
      next
        case (Some j)
        then have "holds_buckets (l_pcs s j)" using assms(1) unfolding lock_inv_def by blast
        then show ?thesis by (rule B)
      qed
    qed
  qed
qed

lemma finite_active:
  "lock_reachable (init_locked l now) s \<Longrightarrow> finite (active s)"
proof (induction rule: lock_reachable.induct)
  case lock_start
  show ?case by (simp add: active_def init_locked_def)
next
  case (lock_next s s')
  from lock_next.hyps(2) show ?case
  proof cases
    case (lock_tick t)
    with lock_next.IH show ?thesis by (simp add: active_def)
  next
    case (lock_arrive i tenant op)
    then have "active s' \<subseteq> insert i (active s)" by (auto simp: active_def)
    then show ?thesis using lock_next.IH by (auto intro: finite_subset)
  next
    case (lock_thread i)
    show ?thesis
      by (rule finite_subset [OF thread_step_work(1) [OF lock_thread lock_next.IH] lock_next.IH])
  qed
qed

lemma thread_steps_reachable:
  assumes "(some_thread_step ^^ n) s s'" and "lock_reachable s0 s"
  shows "lock_reachable s0 s'"
  using assms
proof (induction n arbitrary: s')
  case (Suc n)
  obtain t where "(some_thread_step ^^ n) s t" "some_thread_step t s'"
    using Suc.prems(1) by auto
  with Suc.IH Suc.prems(2) show ?case
    unfolding some_thread_step_def by (blast intro: lock_step.lock_thread lock_reachable.lock_next)
qed simp

section \<open>Properties\<close>

text \<open>C14: the two mutexes make the sections atomic. At most one thread is inside each section, and
  whatever the schedule of the single steps (waiting, evicting, taking, unlocking), the clock,
  the readings, the log of grants and the log of admissions are those of an execution in which both sections
  happen at once, where a map half way through an eviction counts as not yet evicted.\<close>

theorem locks_make_sections_atomic:
  assumes "lock_reachable (init_locked l t0) s"
  shows "reachable (init_system l t0) (abs_system s) \<and>
    (\<forall>i j. holds_global (l_pcs s i) \<and> holds_global (l_pcs s j) \<longrightarrow> i = j) \<and>
    (\<forall>i j. holds_buckets (l_pcs s i) \<and> holds_buckets (l_pcs s j) \<longrightarrow> i = j)"
  using lock_reachable_simulated [OF assms] one_holder [OF lock_inv_reachable [OF assms lock_inv_start]]
  by blast

theorem locks_make_sections_atomic_witness:
  "reachable (init_system (new_limiter 3 1 id) 7)
     (abs_system (move 4 (Has_Time 7 ''t'' ''op'') (init_locked (new_limiter 3 1 id) 7)))"
proof -
  let ?s = "init_locked (new_limiter 3 1 id) 7"
  have "lock_step ?s (move 4 (Has_Time (l_clock ?s) ''t'' ''op'') ?s)"
    by (rule lock_step.lock_arrive) (simp add: init_locked_def)
  then have "lock_reachable ?s (move 4 (Has_Time 7 ''t'' ''op'') ?s)"
    using lock_reachable.lock_next [OF lock_reachable.lock_start] by (simp add: init_locked_def)
  then show ?thesis using locks_make_sections_atomic by blast
qed

text \<open>C13: no caller waits for ever. From every reachable state, any run of the threads that are inside
  \<open>allow\<close> takes at most seven steps per call in progress, and as long as some call is in progress
  some thread can take a step: the two locks never deadlock, because no thread waits for one
  while it holds the other.\<close>

theorem calls_come_to_rest:
  assumes "lock_reachable (init_locked l t0) s" and "(some_thread_step ^^ n) s s'"
  shows "n \<le> 7 * card (active s) \<and> ((\<exists>s''. some_thread_step s' s'') \<or> (\<forall>i. l_pcs s' i = At_Rest))"
proof
  have "n + work_left s' \<le> work_left s"
    by (rule thread_steps_bounded(1) [OF assms(2) finite_active [OF assms(1)]])
  with work_left_le [of s] show "n \<le> 7 * card (active s)" by simp
  have "lock_inv s'"
    by (rule lock_inv_reachable [OF thread_steps_reachable [OF assms(2,1)] lock_inv_start])
  then show "(\<exists>s''. some_thread_step s' s'') \<or> (\<forall>i. l_pcs s' i = At_Rest)"
    using some_thread_can_go_on by blast
qed

theorem calls_come_to_rest_witness:
  "\<exists>s'. some_thread_step (move 4 (Has_Time 7 ''t'' ''op'') (init_locked (new_limiter 3 1 id) 7)) s'"
proof -
  let ?s = "init_locked (new_limiter 3 1 id) 7"
  have "lock_step ?s (move 4 (Has_Time (l_clock ?s) ''t'' ''op'') ?s)"
    by (rule lock_step.lock_arrive) (simp add: init_locked_def)
  then have "lock_reachable ?s (move 4 (Has_Time 7 ''t'' ''op'') ?s)"
    using lock_reachable.lock_next [OF lock_reachable.lock_start] by (simp add: init_locked_def)
  from calls_come_to_rest [OF this, of 0] show ?thesis by (simp add: init_locked_def) (metis lock_pc.distinct(1))
qed

end
