(* ===== verification/Provider.thy ===== *)
theory Provider
  imports Prelude
begin

text \<open>
  \<open>crypto/src/provider.rs\<close>: key handles, attestations, provider errors and the
  \<open>CryptoProvider\<close> trait. A trait object is a record of its methods; the two methods that draw
  randomness thread the state of the random number generator. The locale \<open>crypto_provider\<close> is
  the contract that the Guard relies on; \<open>Software_Provider\<close> interprets it.
\<close>

datatype KeyHandle = KeyHandle (handle_as_str: string)

definition handle_debug :: "KeyHandle \<Rightarrow> string" where
  "handle_debug h = ''KeyHandle('' @ handle_as_str h @ '')''"

record ProviderAttestation =
  att_module :: string
  att_version :: string
  fips :: bool
  certificate :: "string option"

datatype ProviderError = UnknownKey KeyHandle | Backend string | Decrypt

primrec provider_error_display :: "ProviderError \<Rightarrow> string" where
  "provider_error_display (UnknownKey h) = ''unknown key handle '' @ handle_debug h"
| "provider_error_display (Backend msg) = ''crypto backend error: '' @ msg"
| "provider_error_display Decrypt = ''decryption failed''"

record 'g CryptoProvider =
  generate_wrapped_dek :: "KeyHandle \<Rightarrow> string \<Rightarrow> 'g \<Rightarrow> (bytes, ProviderError) res \<times> 'g"
  encrypt_field :: "KeyHandle \<Rightarrow> string \<Rightarrow> bytes \<Rightarrow> bytes \<Rightarrow> 'g \<Rightarrow> (bytes, ProviderError) res \<times> 'g"
  decrypt_field :: "KeyHandle \<Rightarrow> string \<Rightarrow> bytes \<Rightarrow> bytes \<Rightarrow> (bytes, ProviderError) res"
  blind_index :: "KeyHandle \<Rightarrow> string \<Rightarrow> bytes \<Rightarrow> (bytes, ProviderError) res"
  attestation :: ProviderAttestation

text \<open>
  The contract. \<open>prov\<close> builds the provider from its environment (libraries and keys), \<open>lawful\<close>
  says that the libraries behave as documented, and \<open>ambiguous\<close> that the primitive accepts one
  wrapped key under the associated data of two tenants, the forgery that AEAD exists to prevent.
\<close>

locale crypto_provider =
  fixes prov :: "'e \<Rightarrow> 'g CryptoProvider"
    and lawful :: "'e \<Rightarrow> bool"
    and ambiguous :: "'e \<Rightarrow> KeyHandle \<Rightarrow> string \<Rightarrow> string \<Rightarrow> bytes \<Rightarrow> bool"
  assumes no_panic:
      "lawful e \<Longrightarrow> fst (generate_wrapped_dek (prov e) k t g) \<noteq> Panic"
      "lawful e \<Longrightarrow> fst (encrypt_field (prov e) k t w m g) \<noteq> Panic"
      "lawful e \<Longrightarrow> decrypt_field (prov e) k t w c \<noteq> Panic"
      "lawful e \<Longrightarrow> blind_index (prov e) k t i \<noteq> Panic"
    and fresh_dek_nonempty:
      "lawful e \<Longrightarrow> generate_wrapped_dek (prov e) k t g = (Ok w, g') \<Longrightarrow> w \<noteq> []"
    and fresh_dek_opens:
      "lawful e \<Longrightarrow> generate_wrapped_dek (prov e) k t g = (Ok w, g') \<Longrightarrow>
         fst (encrypt_field (prov e) k t w m g'') \<notin> {Err Decrypt, Err (UnknownKey k')}"
    and decrypt_encrypt:
      "lawful e \<Longrightarrow> encrypt_field (prov e) k t w m g = (Ok c, g') \<Longrightarrow>
         decrypt_field (prov e) k t w c = Ok m"
    and foreign_dek_sealed:
      "lawful e \<Longrightarrow> encrypt_field (prov e) k t w m g = (Ok c, g') \<Longrightarrow> t' \<noteq> t \<Longrightarrow>
         \<not> ambiguous e k t t' w \<Longrightarrow> decrypt_field (prov e) k t' w c' = Err Decrypt"
      "lawful e \<Longrightarrow> encrypt_field (prov e) k t w m g = (Ok c, g') \<Longrightarrow> t' \<noteq> t \<Longrightarrow>
         \<not> ambiguous e k t t' w \<Longrightarrow> fst (encrypt_field (prov e) k t' w m' g'') = Err Decrypt"
    and index_length:
      "lawful e \<Longrightarrow> blind_index (prov e) k t i = Ok x \<Longrightarrow> length x = 32"
begin

text \<open>First write and read back: what the Guard does for an empty \<open>wrapped_dek\<close>.\<close>

lemma first_write_reads_back:
  assumes "lawful e" and "generate_wrapped_dek (prov e) k t g = (Ok w, g1)"
    and "encrypt_field (prov e) k t w m g1 = (Ok c, g2)"
  shows "w \<noteq> []" and "decrypt_field (prov e) k t w c = Ok m"
  using assms fresh_dek_nonempty decrypt_encrypt by blast+

text \<open>Two rows under one wrapped key keep their plaintexts apart.\<close>

lemma same_dek_injective:
  assumes "lawful e" and "encrypt_field (prov e) k t w m g = (Ok c, g1)"
    and "encrypt_field (prov e) k t w m' g' = (Ok c, g1')"
  shows "m = m'"
  using decrypt_encrypt [OF assms(1,2)] decrypt_encrypt [OF assms(1,3)] by simp

end

end
