(* ===== verification/Software_Provider.thy ===== *)
theory Software_Provider
  imports Provider
begin

text \<open>
  \<open>crypto/src/providers/software.rs\<close>: AEAD sealing, associated data, the key map and the four
  operations of the software provider. The crates it is built on (\<open>aes-gcm\<close>, \<open>hmac\<close>, \<open>rand\<close>)
  are not under \<open>src\<close>: they are the parameter \<open>lib\<close>, and \<open>lib_lawful\<close> collects what their
  documentation says.
\<close>

record ('g, 'k, 'h) crypto_lib =
  fill_bytes :: "nat \<Rightarrow> 'g \<Rightarrow> bytes \<times> 'g"
  gcm_new :: "bytes \<Rightarrow> ('k, string) res"
  gcm_encrypt :: "'k \<Rightarrow> bytes \<Rightarrow> bytes \<Rightarrow> bytes \<Rightarrow> (bytes, string) res"
  gcm_decrypt :: "'k \<Rightarrow> bytes \<Rightarrow> bytes \<Rightarrow> bytes \<Rightarrow> (bytes, string) res"
  hmac_new :: "bytes \<Rightarrow> ('h, string) res"
  hmac_update :: "'h \<Rightarrow> bytes \<Rightarrow> 'h"
  hmac_finalize :: "'h \<Rightarrow> bytes"

section \<open>Constants and associated data\<close>

definition domain_blind_index :: bytes where
  "domain_blind_index = as_bytes ''aiauth/blind-index/v1''"

definition domain_dek_wrap :: bytes where
  "domain_dek_wrap = as_bytes ''aiauth/dek-wrap/v1''"

definition domain_field :: bytes where
  "domain_field = as_bytes ''aiauth/field/v1''"

definition nonce_len :: nat where
  "nonce_len = 12"

definition dek_len :: nat where
  "dek_len = 32"

text \<open>\<open>len() as u64\<close>, big-endian.\<close>

definition len_be :: "'a list \<Rightarrow> bytes" where
  "len_be xs = u64_to_be_bytes (of_nat (length xs))"

definition aad :: "bytes \<Rightarrow> string \<Rightarrow> bytes" where
  "aad domain tenant_id = domain @ len_be tenant_id @ as_bytes tenant_id"

section \<open>Sealing and opening\<close>

text \<open>\<open>Nonce::from_slice\<close> panics on a slice of another length.\<close>

definition nonce_from_slice :: "bytes \<Rightarrow> (bytes, 'e) res" where
  "nonce_from_slice n = (if length n = nonce_len then Ok n else Panic)"

definition aead_seal ::
    "('g, 'k, 'h) crypto_lib \<Rightarrow> bytes \<Rightarrow> bytes \<Rightarrow> bytes \<Rightarrow> 'g \<Rightarrow> (bytes, ProviderError) res \<times> 'g" where
  "aead_seal lib key ad plaintext g =
     (case map_err Backend (gcm_new lib key) of
        Err e \<Rightarrow> (Err e, g)
      | Panic \<Rightarrow> (Panic, g)
      | Ok cipher \<Rightarrow>
          (let (nonce, g') = fill_bytes lib nonce_len g
           in (rbind (nonce_from_slice nonce) (\<lambda>n.
                 rbind (map_err Backend (gcm_encrypt lib cipher n plaintext ad)) (\<lambda>ct.
                   Ok (nonce @ ct))), g')))"

definition aead_open ::
    "('g, 'k, 'h) crypto_lib \<Rightarrow> bytes \<Rightarrow> bytes \<Rightarrow> bytes \<Rightarrow> (bytes, ProviderError) res" where
  "aead_open lib key ad sealed =
     (if length sealed \<le> nonce_len then Err Decrypt
      else
        rbind (split_at sealed nonce_len) (\<lambda>(nonce, ct).
          rbind (map_err Backend (gcm_new lib key)) (\<lambda>cipher.
            rbind (nonce_from_slice nonce) (\<lambda>n.
              map_err (\<lambda>_. Decrypt) (gcm_decrypt lib cipher n ct ad)))))"

section \<open>The provider\<close>

type_synonym key_map = "KeyHandle \<rightharpoonup> bytes"

definition new_keys :: key_map where
  "new_keys = Map.empty"

definition with_key :: "key_map \<Rightarrow> KeyHandle \<Rightarrow> bytes \<Rightarrow> key_map" where
  "with_key keys handle material = keys(handle \<mapsto> material)"

definition kek_of :: "key_map \<Rightarrow> KeyHandle \<Rightarrow> (bytes, ProviderError) res" where
  "kek_of keys handle = ok_or (keys handle) (UnknownKey handle)"

definition unwrap_dek ::
    "('g, 'k, 'h) crypto_lib \<Rightarrow> key_map \<Rightarrow> KeyHandle \<Rightarrow> string \<Rightarrow> bytes \<Rightarrow> (bytes, ProviderError) res" where
  "unwrap_dek lib keys kek tenant_id wrapped =
     rbind (kek_of keys kek) (\<lambda>k. aead_open lib k (aad domain_dek_wrap tenant_id) wrapped)"

definition sw_generate_wrapped_dek ::
    "('g, 'k, 'h) crypto_lib \<Rightarrow> key_map \<Rightarrow> KeyHandle \<Rightarrow> string \<Rightarrow> 'g \<Rightarrow> (bytes, ProviderError) res \<times> 'g" where
  "sw_generate_wrapped_dek lib keys kek tenant_id g =
     (case kek_of keys kek of
        Err e \<Rightarrow> (Err e, g)
      | Panic \<Rightarrow> (Panic, g)
      | Ok k \<Rightarrow>
          (let (dek, g') = fill_bytes lib dek_len g
           in aead_seal lib k (aad domain_dek_wrap tenant_id) dek g'))"

definition sw_encrypt_field ::
    "('g, 'k, 'h) crypto_lib \<Rightarrow> key_map \<Rightarrow> KeyHandle \<Rightarrow> string \<Rightarrow> bytes \<Rightarrow> bytes \<Rightarrow> 'g \<Rightarrow>
       (bytes, ProviderError) res \<times> 'g" where
  "sw_encrypt_field lib keys kek tenant_id wrapped_dek plaintext g =
     (case unwrap_dek lib keys kek tenant_id wrapped_dek of
        Err e \<Rightarrow> (Err e, g)
      | Panic \<Rightarrow> (Panic, g)
      | Ok dek \<Rightarrow> aead_seal lib dek (aad domain_field tenant_id) plaintext g)"

definition sw_decrypt_field ::
    "('g, 'k, 'h) crypto_lib \<Rightarrow> key_map \<Rightarrow> KeyHandle \<Rightarrow> string \<Rightarrow> bytes \<Rightarrow> bytes \<Rightarrow>
       (bytes, ProviderError) res" where
  "sw_decrypt_field lib keys kek tenant_id wrapped_dek ciphertext =
     rbind (unwrap_dek lib keys kek tenant_id wrapped_dek) (\<lambda>dek.
       aead_open lib dek (aad domain_field tenant_id) ciphertext)"

definition sw_blind_index ::
    "('g, 'k, 'h) crypto_lib \<Rightarrow> key_map \<Rightarrow> KeyHandle \<Rightarrow> string \<Rightarrow> bytes \<Rightarrow> (bytes, ProviderError) res" where
  "sw_blind_index lib keys key tenant_id input =
     rbind (ok_or (keys key) (UnknownKey key)) (\<lambda>material.
       rbind (map_err Backend (hmac_new lib material)) (\<lambda>mac.
         let mac = hmac_update lib mac domain_blind_index;
             mac = hmac_update lib mac (len_be tenant_id);
             mac = hmac_update lib mac (as_bytes tenant_id);
             mac = hmac_update lib mac (len_be input);
             mac = hmac_update lib mac input
         in Ok (hmac_finalize lib mac)))"

definition sw_attestation :: ProviderAttestation where
  "sw_attestation =
     \<lparr>att_module = ''RustCrypto (hmac, sha2)'', att_version = ''0.1.0'', fips = False, certificate = None\<rparr>"

definition software_provider :: "('g, 'k, 'h) crypto_lib \<times> key_map \<Rightarrow> 'g CryptoProvider" where
  "software_provider = (\<lambda>(lib, keys).
     \<lparr>generate_wrapped_dek = sw_generate_wrapped_dek lib keys,
      encrypt_field = sw_encrypt_field lib keys,
      decrypt_field = sw_decrypt_field lib keys,
      blind_index = sw_blind_index lib keys,
      attestation = sw_attestation\<rparr>)"

section \<open>What the crates promise\<close>

text \<open>
  AES-256-GCM takes keys of 32 bytes and refuses others, has a 16-byte tag on every text, and
  decrypts what it encrypted under the same key, nonce and associated data; a generator fills the whole
  buffer; HMAC takes a key of any length, is a streaming function of the concatenated input, and
  HMAC-SHA-256 yields 32 bytes.
\<close>

definition lib_lawful :: "('g, 'k, 'h) crypto_lib \<Rightarrow> bool" where
  "lib_lawful lib \<longleftrightarrow>
     (\<forall>n g. length (fst (fill_bytes lib n g)) = n) \<and>
     (\<forall>k. gcm_new lib k \<noteq> Panic \<and> is_ok (gcm_new lib k) = (length k = 32)) \<and>
     (\<forall>k n m a. gcm_encrypt lib k n m a \<noteq> Panic) \<and>
     (\<forall>k n c a. gcm_decrypt lib k n c a \<noteq> Panic) \<and>
     (\<forall>k n m a c. gcm_encrypt lib k n m a = Ok c \<longrightarrow>
        gcm_decrypt lib k n c a = Ok m) \<and>
     (\<forall>k n c a m. gcm_decrypt lib k n c a = Ok m \<longrightarrow> length c = length m + 16) \<and>
     (\<forall>k. is_ok (hmac_new lib k)) \<and>
     (\<forall>h x y. hmac_update lib (hmac_update lib h x) y = hmac_update lib h (x @ y)) \<and>
     (\<forall>h. length (hmac_finalize lib h) = 32)"

lemma lib_lawfulD:
  assumes "lib_lawful lib"
  shows "length (fst (fill_bytes lib n g)) = n"
    and "gcm_new lib k \<noteq> Panic"
    and "is_ok (gcm_new lib k) = (length k = 32)"
    and "gcm_encrypt lib ck nc m a \<noteq> Panic"
    and "gcm_decrypt lib ck nc c a \<noteq> Panic"
    and "gcm_encrypt lib ck nc m a = Ok c \<Longrightarrow> gcm_decrypt lib ck nc c a = Ok m"
    and "gcm_decrypt lib ck nc c a = Ok m \<Longrightarrow> length c = length m + 16"
    and "is_ok (hmac_new lib k)"
    and "hmac_update lib (hmac_update lib h x) y = hmac_update lib h (x @ y)"
    and "length (hmac_finalize lib h) = 32"
  using assms by (simp_all add: lib_lawful_def)

section \<open>Framing\<close>

lemma aad_inject_tenant: "aad d t = aad d t' \<longleftrightarrow> t = t'"
proof
  assume eq: "aad d t = aad d t'"
  then have "length (aad d t) = length (aad d t')" by simp
  then have "length t = length t'" by (simp add: aad_def len_be_def)
  with eq show "t = t'" by (simp add: aad_def len_be_def)
qed simp

lemma domains_differ:
  "take 8 (aad domain_dek_wrap t) \<noteq> take 8 (aad domain_field t')"
  by (simp add: aad_def domain_dek_wrap_def domain_field_def as_bytes_def of_char_def)

section \<open>Sealing and opening, assuming the crates\<close>

lemma aead_seal_OkD:
  assumes "aead_seal lib key ad m g = (Ok s, g')"
  obtains cipher nonce ct where "gcm_new lib key = Ok cipher" "fill_bytes lib nonce_len g = (nonce, g')"
    "length nonce = nonce_len" "gcm_encrypt lib cipher nonce m ad = Ok ct" "s = nonce @ ct"
  using assms
  by (auto simp: aead_seal_def nonce_from_slice_def Let_def split_beta rust_simps
      split: res.splits if_splits) (metis prod.collapse)

lemma aead_open_eq:
  "aead_open lib key ad s =
     (if length s \<le> nonce_len then Err Decrypt
      else rbind (map_err Backend (gcm_new lib key)) (\<lambda>cipher.
        map_err (\<lambda>_. Decrypt) (gcm_decrypt lib cipher (take nonce_len s) (drop nonce_len s) ad)))"
  by (simp add: aead_open_def nonce_from_slice_def)

lemma aead_open_seal:
  assumes "lib_lawful lib" and "aead_seal lib key ad m g = (Ok s, g')"
  shows "aead_open lib key ad s = Ok m"
  using assms(2)
proof (rule aead_seal_OkD)
  fix cipher nonce ct
  assume a: "gcm_new lib key = Ok cipher" "length nonce = nonce_len"
    "gcm_encrypt lib cipher nonce m ad = Ok ct" "s = nonce @ ct"
  have "gcm_decrypt lib cipher nonce ct ad = Ok m" "length ct = length m + 16"
    using lib_lawfulD(6) [OF assms(1) a(3)] lib_lawfulD(7) [OF assms(1)] by auto
  with a show ?thesis by (simp add: aead_open_eq)
qed

lemma aead_open_no_panic: "lib_lawful lib \<Longrightarrow> aead_open lib key ad s \<noteq> Panic"
  by (auto simp: aead_open_eq rust_simps lib_lawfulD)

lemma aead_seal_no_panic: "lib_lawful lib \<Longrightarrow> fst (aead_seal lib key ad m g) \<noteq> Panic"
  by (auto simp: aead_seal_def nonce_from_slice_def Let_def split_beta rust_simps lib_lawfulD
      split: res.splits)

lemma aead_seal_not_Decrypt:
  "fst (aead_seal lib key ad m g) \<notin> {Err Decrypt, Err (UnknownKey k)}"
  by (auto simp: aead_seal_def nonce_from_slice_def Let_def split_beta rust_simps split: res.splits)

text \<open>A key that opens one text is a valid key: opening another can only succeed or be refused.\<close>

lemma aead_open_same_key:
  assumes "lib_lawful lib" and "aead_open lib key ad s = Ok m"
  shows "aead_open lib key ad' s' = Err Decrypt \<or> (\<exists>m'. aead_open lib key ad' s' = Ok m')"
proof -
  obtain cipher where "gcm_new lib key = Ok cipher"
    using assms(2) by (auto simp: aead_open_eq rust_simps split: if_splits)
  then show ?thesis
    using lib_lawfulD(5) [OF assms(1), of cipher]
    by (cases "gcm_decrypt lib cipher (take nonce_len s') (drop nonce_len s') ad'")
      (auto simp: aead_open_eq)
qed

text \<open>The primitive authenticates one sealed text under two different associated data.\<close>

definition authenticates_both ::
    "('g, 'k, 'h) crypto_lib \<Rightarrow> bytes \<Rightarrow> bytes \<Rightarrow> bytes \<Rightarrow> bytes \<Rightarrow> bool" where
  "authenticates_both lib key sealed a a' \<longleftrightarrow> a \<noteq> a' \<and>
     (case gcm_new lib key of
        Ok cipher \<Rightarrow>
          is_ok (gcm_decrypt lib cipher (take nonce_len sealed) (drop nonce_len sealed) a) \<and>
          is_ok (gcm_decrypt lib cipher (take nonce_len sealed) (drop nonce_len sealed) a')
      | _ \<Rightarrow> False)"

lemma aead_open_two:
  assumes "aead_open lib key a s = Ok m" and "aead_open lib key a' s = Ok m'" and "a \<noteq> a'"
  shows "authenticates_both lib key s a a'"
  using assms by (auto simp: authenticates_both_def aead_open_eq rust_simps split: if_splits)

lemma aead_open_length:
  assumes "lib_lawful lib" and "aead_open lib key ad s = Ok m"
  shows "length s = length m + 28"
  using assms(2) lib_lawfulD(7) [OF assms(1)]
  by (fastforce simp: aead_open_eq rust_simps nonce_len_def split: if_splits)

lemma aead_open_valid_key:
  assumes "lib_lawful lib" and "length key = 32"
  shows "aead_open lib key ad s = Err Decrypt \<or> (\<exists>m. aead_open lib key ad s = Ok m)"
proof -
  obtain cipher where "gcm_new lib key = Ok cipher"
    using lib_lawfulD(3) [OF assms(1), of key] assms(2) by (auto simp: is_ok_conv)
  then show ?thesis
    using lib_lawfulD(5) [OF assms(1), of cipher]
    by (cases "gcm_decrypt lib cipher (take nonce_len s) (drop nonce_len s) ad")
      (auto simp: aead_open_eq)
qed

section \<open>The contract holds\<close>

definition wrapped_key_ambiguous ::
    "('g, 'k, 'h) crypto_lib \<times> key_map \<Rightarrow> KeyHandle \<Rightarrow> string \<Rightarrow> string \<Rightarrow> bytes \<Rightarrow> bool" where
  "wrapped_key_ambiguous = (\<lambda>(lib, keys) kek t t' w.
     (case keys kek of
        Some k \<Rightarrow> authenticates_both lib k w (aad domain_dek_wrap t) (aad domain_dek_wrap t')
      | None \<Rightarrow> False))"

lemma unwrap_dek_Ok:
  "unwrap_dek lib keys kek t w = Ok dek \<longleftrightarrow>
     (\<exists>k. keys kek = Some k \<and> aead_open lib k (aad domain_dek_wrap t) w = Ok dek)"
  by (auto simp: unwrap_dek_def kek_of_def rust_simps)

lemma unwrap_dek_no_panic: "lib_lawful lib \<Longrightarrow> unwrap_dek lib keys kek t w \<noteq> Panic"
  by (auto simp: unwrap_dek_def kek_of_def rust_simps aead_open_no_panic)

lemma unwrap_generated:
  assumes "lib_lawful lib" and "sw_generate_wrapped_dek lib keys kek t g = (Ok w, g')"
  shows "unwrap_dek lib keys kek t w = Ok (fst (fill_bytes lib dek_len g))"
proof -
  obtain k where k: "keys kek = Some k"
    using assms(2) by (auto simp: sw_generate_wrapped_dek_def kek_of_def ok_or_def split: option.splits)
  obtain dek g1 where d: "fill_bytes lib dek_len g = (dek, g1)" by fastforce
  have "aead_seal lib k (aad domain_dek_wrap t) dek g1 = (Ok w, g')"
    using assms(2) by (simp add: sw_generate_wrapped_dek_def kek_of_def k d)
  from aead_open_seal [OF assms(1) this] show ?thesis by (simp add: unwrap_dek_Ok k d)
qed

lemma encrypt_field_OkD:
  assumes "sw_encrypt_field lib keys kek t w m g = (Ok c, g')"
  obtains dek where "unwrap_dek lib keys kek t w = Ok dek"
    "aead_seal lib dek (aad domain_field t) m g = (Ok c, g')"
  using assms by (auto simp: sw_encrypt_field_def split: res.splits)

text \<open>A wrapped key that opens for one tenant is refused for every other.\<close>

lemma unwrap_foreign:
  assumes "lib_lawful lib" and "unwrap_dek lib keys kek t w = Ok dek" and "t' \<noteq> t"
    and "\<not> wrapped_key_ambiguous (lib, keys) kek t t' w"
  shows "unwrap_dek lib keys kek t' w = Err Decrypt"
proof -
  obtain k where k: "keys kek = Some k" "aead_open lib k (aad domain_dek_wrap t) w = Ok dek"
    using assms(2) by (auto simp: unwrap_dek_Ok)
  have "aad domain_dek_wrap t \<noteq> aad domain_dek_wrap t'" using assms(3) by (simp add: aad_inject_tenant)
  then have "\<not> (\<exists>m'. aead_open lib k (aad domain_dek_wrap t') w = Ok m')"
    using assms(4) aead_open_two [OF k(2)] by (auto simp: wrapped_key_ambiguous_def k(1))
  then show ?thesis
    using aead_open_same_key [OF assms(1) k(2), of "aad domain_dek_wrap t'" w] k(1)
    by (auto simp: unwrap_dek_def kek_of_def)
qed

lemma software_sel [simp]:
  "generate_wrapped_dek (software_provider (lib, keys)) = sw_generate_wrapped_dek lib keys"
  "encrypt_field (software_provider (lib, keys)) = sw_encrypt_field lib keys"
  "decrypt_field (software_provider (lib, keys)) = sw_decrypt_field lib keys"
  "blind_index (software_provider (lib, keys)) = sw_blind_index lib keys"
  "attestation (software_provider e) = sw_attestation"
  by (simp_all add: software_provider_def split_beta)

lemma generate_no_panic:
  "lib_lawful lib \<Longrightarrow> fst (sw_generate_wrapped_dek lib keys kek t g) \<noteq> Panic"
  by (auto simp: sw_generate_wrapped_dek_def kek_of_def Let_def split_beta aead_seal_no_panic
      split: res.splits)

lemma encrypt_no_panic: "lib_lawful lib \<Longrightarrow> fst (sw_encrypt_field lib keys kek t w m g) \<noteq> Panic"
  by (auto simp: sw_encrypt_field_def aead_seal_no_panic dest: unwrap_dek_no_panic split: res.splits)

lemma decrypt_no_panic: "lib_lawful lib \<Longrightarrow> sw_decrypt_field lib keys kek t w c \<noteq> Panic"
  by (auto simp: sw_decrypt_field_def rust_simps aead_open_no_panic unwrap_dek_no_panic)

lemma generated_OkD:
  assumes "sw_generate_wrapped_dek lib keys kek t g = (Ok w, g')"
  obtains k dek g1 where "keys kek = Some k" "fill_bytes lib dek_len g = (dek, g1)"
    "aead_seal lib k (aad domain_dek_wrap t) dek g1 = (Ok w, g')"
  using assms
  by (auto simp: sw_generate_wrapped_dek_def kek_of_def Let_def split_beta split: res.splits)
    (metis prod.collapse)

text \<open>A sealed text is the nonce, the ciphertext and the tag.\<close>

lemma length_sealed:
  assumes "lib_lawful lib" and "aead_seal lib key ad m g = (Ok s, g')"
  shows "length s = nonce_len + length m + 16"
  using assms(2)
proof (rule aead_seal_OkD)
  fix cipher nonce ct
  assume a: "length nonce = nonce_len" "gcm_encrypt lib cipher nonce m ad = Ok ct" "s = nonce @ ct"
  from lib_lawfulD(7) [OF assms(1) lib_lawfulD(6) [OF assms(1) a(2)]] a(1,3) show ?thesis by simp
qed

lemma length_generated:
  assumes "lib_lawful lib" and "sw_generate_wrapped_dek lib keys kek t g = (Ok w, g')"
  shows "length w = 60"
  using assms(2)
proof (rule generated_OkD)
  fix k dek g1
  assume d: "fill_bytes lib dek_len g = (dek, g1)"
    and s: "aead_seal lib k (aad domain_dek_wrap t) dek g1 = (Ok w, g')"
  have "length dek = dek_len" using lib_lawfulD(1) [OF assms(1), of dek_len g] d by simp
  with length_sealed [OF assms(1) s] show ?thesis by (simp add: dek_len_def nonce_len_def)
qed

text \<open>The five updates are one update with the framed input.\<close>

definition index_frame :: "string \<Rightarrow> bytes \<Rightarrow> bytes" where
  "index_frame tenant_id input =
     domain_blind_index @ len_be tenant_id @ as_bytes tenant_id @ len_be input @ input"

lemma blind_index_frame:
  assumes "lib_lawful lib"
  shows "sw_blind_index lib keys key t i =
    (case keys key of None \<Rightarrow> Err (UnknownKey key)
     | Some material \<Rightarrow>
         rbind (map_err Backend (hmac_new lib material)) (\<lambda>mac.
           Ok (hmac_finalize lib (hmac_update lib mac (index_frame t i)))))"
  using assms by (simp add: sw_blind_index_def index_frame_def lib_lawfulD split: option.splits)

lemma index_frame_inject:
  assumes "length t < 2 ^ 64" and "length t' < 2 ^ 64"
  shows "index_frame t i = index_frame t' i' \<longleftrightarrow> t = t' \<and> i = i'"
proof
  assume eq: "index_frame t i = index_frame t' i'"
  then have "(of_nat (length t) :: u64) = of_nat (length t')"
    by (simp add: index_frame_def len_be_def)
  then have "unat (of_nat (length t) :: u64) = unat (of_nat (length t') :: u64)" by simp
  then have "length t = length t'" using assms by (simp add: unat_of_nat take_bit_nat_def)
  with eq show "t = t' \<and> i = i'" by (simp add: index_frame_def len_be_def)
qed simp

lemma hmac_new_no_panic: "lib_lawful lib \<Longrightarrow> hmac_new lib k \<noteq> Panic"
  using lib_lawfulD(8) [of lib k] by auto

lemma blind_index_no_panic: "lib_lawful lib \<Longrightarrow> sw_blind_index lib keys key t i \<noteq> Panic"
  by (auto simp: blind_index_frame rust_simps hmac_new_no_panic split: option.splits)

lemma blind_index_length: "lib_lawful lib \<Longrightarrow> sw_blind_index lib keys key t i = Ok x \<Longrightarrow> length x = 32"
  by (auto simp: blind_index_frame rust_simps lib_lawfulD(10) split: option.splits)

lemma fresh_key_opens:
  assumes "lib_lawful lib" and "sw_generate_wrapped_dek lib keys kek t g = (Ok w, g')"
  shows "fst (sw_encrypt_field lib keys kek t w m g'') \<notin> {Err Decrypt, Err (UnknownKey k')}"
  using unwrap_generated [OF assms] aead_seal_not_Decrypt by (simp add: sw_encrypt_field_def)

lemma decrypt_encrypted:
  assumes "lib_lawful lib" and "sw_encrypt_field lib keys kek t w m g = (Ok c, g')"
  shows "sw_decrypt_field lib keys kek t w c = Ok m"
  using assms(2)
  by (rule encrypt_field_OkD) (simp add: sw_decrypt_field_def aead_open_seal [OF assms(1)])

lemma decrypt_field_valid_kek:
  assumes "lib_lawful lib" and "keys kek = Some material" and "length material = 32"
    and "length w = 60"
  shows "sw_decrypt_field lib keys kek t w c = Err Decrypt \<or>
    (\<exists>m. sw_decrypt_field lib keys kek t w c = Ok m)"
proof -
  consider "unwrap_dek lib keys kek t w = Err Decrypt"
    | dek where "unwrap_dek lib keys kek t w = Ok dek"
    using aead_open_valid_key [OF assms(1,3)] assms(2) by (auto simp: unwrap_dek_def kek_of_def)
  then show ?thesis
  proof cases
    case (2 dek)
    then have "length dek = 32"
      using aead_open_length [OF assms(1)] assms(4) by (auto simp: unwrap_dek_Ok)
    then show ?thesis
      using aead_open_valid_key [OF assms(1), of dek "aad domain_field t" c] 2
      by (auto simp: sw_decrypt_field_def)
  qed (simp add: sw_decrypt_field_def)
qed

lemma decrypt_field_length:
  "lib_lawful lib \<Longrightarrow> sw_decrypt_field lib keys kek t w c = Ok m \<Longrightarrow> length c = length m + 28"
  by (auto simp: sw_decrypt_field_def rbind_Ok_conv dest: aead_open_length)

lemma foreign_key_refused:
  assumes "lib_lawful lib" and "sw_encrypt_field lib keys kek t w m g = (Ok c, g')" and "t' \<noteq> t"
    and "\<not> wrapped_key_ambiguous (lib, keys) kek t t' w"
  shows "unwrap_dek lib keys kek t' w = Err Decrypt"
  using assms(2) by (rule encrypt_field_OkD) (rule unwrap_foreign [OF assms(1) _ assms(3,4)])

text \<open>The contract of \<open>Provider\<close>, for every lawful set of crates and every key map.\<close>

interpretation software: crypto_provider software_provider "\<lambda>(lib, keys). lib_lawful lib"
  wrapped_key_ambiguous
proof (unfold_locales, goal_cases)
  case (5 e k t g w g')
  then show ?case using length_generated by (cases e) fastforce
next
  case (6 e k t g w g' m g'' k')
  then show ?case using fresh_key_opens by (cases e) fastforce
next
  case (7 e k t w m g c g')
  then show ?case by (cases e) (simp add: decrypt_encrypted)
next
  case (8 e k t w m g c g' t' c')
  then show ?case by (cases e) (simp add: sw_decrypt_field_def foreign_key_refused)
next
  case (9 e k t w m g c g' t' m' g'')
  then show ?case by (cases e) (simp add: sw_encrypt_field_def foreign_key_refused)
qed (auto simp: generate_no_panic encrypt_no_panic decrypt_no_panic blind_index_no_panic
    blind_index_length split: prod.splits)

end
