(* ===== verification/Software_Provider_Properties.thy ===== *)
theory Software_Provider_Properties
  imports Software_Provider
begin

text \<open>
  What \<open>crypto/src/providers/software.rs\<close> guarantees on top of its crates: separation of
  domains and tenants in the associated data and in the blind index, the envelope round trip,
  tenant binding of wrapped keys and fields, fresh nonces, and the errors a caller can see.
  \<open>sample_lib\<close> stands in for the crates where a theorem is applied to concrete values: a toy
  cipher with a checksum for a tag, lawful but of course not secure.
\<close>

section \<open>A lawful stand-in for the crates\<close>

definition sample_tag :: "bytes \<Rightarrow> bytes \<Rightarrow> bytes \<Rightarrow> bytes \<Rightarrow> bytes" where
  "sample_tag k n m a = replicate 16 (sum_list k + 3 * sum_list n + 5 * sum_list m + 7 * sum_list a)"

definition sample_lib :: "(nat, bytes, bytes) crypto_lib" where
  "sample_lib =
     \<lparr>fill_bytes = (\<lambda>n g. (replicate n (of_nat g), Suc g)),
      gcm_new = (\<lambda>k. if length k = 32 then Ok k else Err ''Invalid Length''),
      gcm_encrypt = (\<lambda>k n m a. Ok (m @ sample_tag k n m a)),
      gcm_decrypt = (\<lambda>k n c a.
        let m = take (length c - 16) c
        in if 16 \<le> length c \<and> drop (length c - 16) c = sample_tag k n m a then Ok m
           else Err ''aead::Error''),
      hmac_new = Ok,
      hmac_update = (\<lambda>h x. h @ x),
      hmac_finalize = (\<lambda>h. replicate 32 (sum_list h))\<rparr>"

lemma sample_lib_lawful: "lib_lawful sample_lib"
  by (simp add: lib_lawful_def sample_lib_def sample_tag_def Let_def)

definition sample_keys :: key_map where
  "sample_keys = with_key (with_key new_keys (KeyHandle ''idx-1'') (replicate 32 9))
     (KeyHandle ''kek-1'') (replicate 32 3)"

lemma sample_kek: "sample_keys (KeyHandle ''kek-1'') = Some (replicate 32 3)"
  by (simp add: sample_keys_def with_key_def new_keys_def)

lemma sample_generate:
  "sw_generate_wrapped_dek sample_lib sample_keys (KeyHandle ''kek-1'') t 5 =
     (Ok (replicate 12 6 @ replicate 32 5 @
        sample_tag (replicate 32 3) (replicate 12 6) (replicate 32 5) (aad domain_dek_wrap t)), 7)"
  by (simp add: sw_generate_wrapped_dek_def kek_of_def sample_kek aead_seal_def nonce_from_slice_def
      sample_lib_def nonce_len_def dek_len_def)

lemma sample_encrypt:
  "sw_encrypt_field sample_lib sample_keys (KeyHandle ''kek-1'') t
     (replicate 12 6 @ replicate 32 5 @
        sample_tag (replicate 32 3) (replicate 12 6) (replicate 32 5) (aad domain_dek_wrap t)) m g =
     (Ok (replicate 12 (of_nat g) @ m @
        sample_tag (replicate 32 5) (replicate 12 (of_nat g)) m (aad domain_field t)), Suc g)"
  by (simp add: sw_encrypt_field_def unwrap_dek_def kek_of_def sample_kek aead_seal_def aead_open_eq
      nonce_from_slice_def sample_lib_def nonce_len_def sample_tag_def)

lemma sample_unambiguous:
  "\<not> wrapped_key_ambiguous (sample_lib, sample_keys) (KeyHandle ''kek-1'') ''t1'' ''t2''
     (replicate 12 6 @ replicate 32 5 @
       sample_tag (replicate 32 3) (replicate 12 6) (replicate 32 5) (aad domain_dek_wrap ''t1''))"
  by (simp add: wrapped_key_ambiguous_def sample_kek authenticates_both_def sample_lib_def
      sample_tag_def nonce_len_def aad_def domain_dek_wrap_def as_bytes_def of_char_def len_be_def)

section \<open>Separation\<close>

text \<open>The associated data of two operations is the same only for the same tenant, and the data
  that binds a wrapped key is never the data that binds a field.\<close>

lemma associated_data_separates:
  "(aad domain t = aad domain t' \<longleftrightarrow> t = t') \<and> aad domain_dek_wrap t \<noteq> aad domain_field t'"
  using domains_differ [of t t'] by (auto simp: aad_inject_tenant)

text \<open>C32: the blind index is the HMAC of one framed message, from which the domain, the tenant and
  the input are read back: equal indexes under one key for two different pairs of tenant and input
  are a collision of the MAC itself on two different messages.\<close>

theorem blind_index_collision_is_mac_collision:
  assumes "lib_lawful lib" and "length t < 2 ^ 64" and "length t' < 2 ^ 64" and "(t, i) \<noteq> (t', i')"
    and "sw_blind_index lib keys k t i = Ok x" and "sw_blind_index lib keys k t' i' = Ok x"
  shows "\<exists>material mac. keys k = Some material \<and> hmac_new lib material = Ok mac \<and>
    index_frame t i \<noteq> index_frame t' i' \<and>
    x = hmac_finalize lib (hmac_update lib mac (index_frame t i)) \<and>
    x = hmac_finalize lib (hmac_update lib mac (index_frame t' i'))"
  using assms(4-6) index_frame_inject [OF assms(2,3), of i i']
  by (auto simp: blind_index_frame [OF assms(1)] rust_simps split: option.splits)

theorem blind_index_collision_is_mac_collision_witness:
  "\<exists>material mac. sample_keys (KeyHandle ''kek-1'') = Some material \<and> hmac_new sample_lib material = Ok mac \<and>
    index_frame ''ab'' [1] \<noteq> index_frame ''ba'' [1]"
  using blind_index_collision_is_mac_collision [OF sample_lib_lawful, of "''ab''" "''ba''" "[1]" "[1]"
      sample_keys "KeyHandle ''kek-1''"]
  by (auto simp: blind_index_frame [OF sample_lib_lawful] sample_kek sample_lib_def index_frame_def
      as_bytes_def of_char_def)

section \<open>Envelopes\<close>

text \<open>Envelope round trip. A minted key is 60 bytes, wraps for its tenant, and whatever is
  encrypted under it grows by nonce and tag and decrypts to itself.\<close>

lemma envelope_round_trip:
  assumes "lib_lawful lib" and "sw_generate_wrapped_dek lib keys kek t g = (Ok w, g1)"
    and "sw_encrypt_field lib keys kek t w m g2 = (Ok c, g3)"
  shows "length w = 60 \<and> length c = length m + 28 \<and> sw_decrypt_field lib keys kek t w c = Ok m"
proof -
  have "sw_decrypt_field lib keys kek t w c = Ok m"
    using software.decrypt_encrypt [of "(lib, keys)"] assms(1,3) by simp
  moreover from this have "length c = length m + 28"
    using aead_open_length [OF assms(1)] by (auto simp: sw_decrypt_field_def rust_simps rbind_Ok_conv)
  ultimately show ?thesis using length_generated [OF assms(1,2)] by simp
qed

lemma envelope_round_trip_witness:
  "\<exists>w c g. sw_generate_wrapped_dek sample_lib sample_keys (KeyHandle ''kek-1'') ''t1'' 5 = (Ok w, 7) \<and>
     sw_encrypt_field sample_lib sample_keys (KeyHandle ''kek-1'') ''t1'' w [1, 2] 7 = (Ok c, g) \<and>
     sw_decrypt_field sample_lib sample_keys (KeyHandle ''kek-1'') ''t1'' w c = Ok [1, 2]"
  using envelope_round_trip [OF sample_lib_lawful sample_generate [of "''t1''"]
      sample_encrypt [of "''t1''" "[1, 2]" 7]]
    sample_generate [of "''t1''"] sample_encrypt [of "''t1''" "[1, 2]" 7] by blast

text \<open>Tenant binding. A wrapped key under which one tenant's field was encrypted is refused, as a
  failed decryption, for every other tenant, whether it encrypts or decrypts, whatever the
  ciphertext, unless the AEAD itself accepts that wrapped key under both associated data.\<close>

lemma another_tenant_is_refused:
  assumes "lib_lawful lib" and "sw_encrypt_field lib keys kek t w m g = (Ok c, g')" and "t' \<noteq> t"
    and "\<not> wrapped_key_ambiguous (lib, keys) kek t t' w"
  shows "sw_decrypt_field lib keys kek t' w c' = Err Decrypt \<and>
    sw_encrypt_field lib keys kek t' w m' g'' = (Err Decrypt, g'')"
  using foreign_key_refused [OF assms] by (simp add: sw_encrypt_field_def sw_decrypt_field_def)

lemma another_tenant_is_refused_witness:
  "\<exists>w c. sw_encrypt_field sample_lib sample_keys (KeyHandle ''kek-1'') ''t1'' w [1] 7 = (Ok c, 8) \<and>
     sw_decrypt_field sample_lib sample_keys (KeyHandle ''kek-1'') ''t2'' w c = Err Decrypt"
proof -
  have w: "sw_encrypt_field sample_lib sample_keys (KeyHandle ''kek-1'') ''t1''
      (replicate 12 6 @ replicate 32 5 @
        sample_tag (replicate 32 3) (replicate 12 6) (replicate 32 5) (aad domain_dek_wrap ''t1'')) [1] 7
      = (Ok (replicate 12 7 @ [1] @
        sample_tag (replicate 32 5) (replicate 12 7) [1] (aad domain_field ''t1'')), 8)"
    using sample_encrypt [of "''t1''" "[1]" 7] by simp
  from another_tenant_is_refused [OF sample_lib_lawful w _ sample_unambiguous] w show ?thesis by force
qed

text \<open>C31: even a data key that two tenants share does not open one tenant's field for the other: that
  the field decrypts means that the AEAD authenticated it under two different associated data.\<close>

theorem field_is_bound_to_its_tenant:
  assumes "lib_lawful lib" and "sw_encrypt_field lib keys kek t w m g = (Ok c, g')" and "t' \<noteq> t"
    and "unwrap_dek lib keys kek t w = Ok dek" and "unwrap_dek lib keys kek' t' w' = Ok dek"
    and "\<not> authenticates_both lib dek c (aad domain_field t) (aad domain_field t')"
  shows "\<not> is_ok (sw_decrypt_field lib keys kek' t' w' c)"
proof
  assume "is_ok (sw_decrypt_field lib keys kek' t' w' c)"
  then obtain m' where o: "aead_open lib dek (aad domain_field t') c = Ok m'"
    using assms(5) by (auto simp: sw_decrypt_field_def is_ok_conv)
  have "aead_open lib dek (aad domain_field t) c = Ok m"
    using decrypt_encrypted [OF assms(1,2)] assms(4) by (simp add: sw_decrypt_field_def)
  with aead_open_two [OF this o] assms(3,6) show False by (simp add: aad_inject_tenant)
qed

lemma sample_unwrap:
  "unwrap_dek sample_lib sample_keys (KeyHandle ''kek-1'') t
     (replicate 12 6 @ replicate 32 5 @
        sample_tag (replicate 32 3) (replicate 12 6) (replicate 32 5) (aad domain_dek_wrap t)) =
     Ok (replicate 32 5)"
  using unwrap_generated [OF sample_lib_lawful sample_generate [of t]]
  by (simp add: sample_lib_def dek_len_def)

theorem field_is_bound_to_its_tenant_witness:
  "\<exists>w w' c. sw_encrypt_field sample_lib sample_keys (KeyHandle ''kek-1'') ''t1'' w [1] 7 = (Ok c, 8) \<and>
     unwrap_dek sample_lib sample_keys (KeyHandle ''kek-1'') ''t2'' w' = Ok (replicate 32 5) \<and>
     \<not> is_ok (sw_decrypt_field sample_lib sample_keys (KeyHandle ''kek-1'') ''t2'' w' c)"
proof -
  let ?c = "replicate 12 7 @ [1] @
    sample_tag (replicate 32 5) (replicate 12 7) [1] (aad domain_field ''t1'')"
  have "\<not> authenticates_both sample_lib (replicate 32 5) ?c
      (aad domain_field ''t1'') (aad domain_field ''t2'')"
    by (simp add: authenticates_both_def sample_lib_def sample_tag_def nonce_len_def aad_def
        domain_field_def as_bytes_def of_char_def len_be_def)
  from field_is_bound_to_its_tenant [OF sample_lib_lawful _ _ sample_unwrap sample_unwrap this]
  show ?thesis
    using sample_encrypt [of "''t1''" "[1]" 7] sample_unwrap [of "''t2''"] by fastforce
qed

text \<open>Every encryption draws its own nonce and puts it in front of the ciphertext: the generator
  advances by exactly one nonce, and two encryptions with different draws give different
  ciphertexts, even of one plaintext under one key.\<close>

lemma ciphertext_carries_a_fresh_nonce:
  assumes "lib_lawful lib" and "sw_encrypt_field lib keys kek t w m g = (Ok c, g')"
  shows "(take nonce_len c, g') = fill_bytes lib nonce_len g \<and>
    (\<forall>g2. fst (fill_bytes lib nonce_len g2) \<noteq> fst (fill_bytes lib nonce_len g) \<longrightarrow>
       fst (sw_encrypt_field lib keys kek t w m g2) \<noteq> Ok c)"
proof -
  have *: "(take nonce_len c, g') = fill_bytes lib nonce_len g"
    if "sw_encrypt_field lib keys kek t w m g = (Ok c, g')" for g g'
    using that by (auto elim!: encrypt_field_OkD aead_seal_OkD)
  show ?thesis
  proof (intro conjI allI impI notI)
    fix g2
    assume ne: "fst (fill_bytes lib nonce_len g2) \<noteq> fst (fill_bytes lib nonce_len g)"
      and "fst (sw_encrypt_field lib keys kek t w m g2) = Ok c"
    then have "sw_encrypt_field lib keys kek t w m g2 =
        (Ok c, snd (sw_encrypt_field lib keys kek t w m g2))" by (metis prod.collapse)
    from * [OF this] * [OF assms(2)] ne show False by (metis fst_conv)
  qed (rule * [OF assms(2)])
qed

lemma ciphertext_carries_a_fresh_nonce_witness:
  "\<exists>w c c'. sw_encrypt_field sample_lib sample_keys (KeyHandle ''kek-1'') ''t1'' w [1] 7 = (Ok c, 8) \<and>
     sw_encrypt_field sample_lib sample_keys (KeyHandle ''kek-1'') ''t1'' w [1] 8 = (Ok c', 9) \<and>
     c \<noteq> c' \<and> take 12 c = replicate 12 7"
proof -
  have n: "fst (fill_bytes sample_lib nonce_len 8) \<noteq> fst (fill_bytes sample_lib nonce_len 7)"
    by (simp add: sample_lib_def nonce_len_def)
  from ciphertext_carries_a_fresh_nonce [OF sample_lib_lawful sample_encrypt [of "''t1''" "[1]" 7]] n
  show ?thesis
    using sample_encrypt [of "''t1''" "[1]" 7] sample_encrypt [of "''t1''" "[1]" 8] by force
qed

section \<open>Errors\<close>

text \<open>Decryption is no oracle. With a loaded key of the right size and a wrapped key of the size
  the provider mints, decryption never panics and has one single failure, whether the
  tenant, the key, the ciphertext or its length is wrong; and it succeeds only on a text that is
  28 bytes longer than its plaintext.\<close>

lemma decryption_has_one_failure:
  assumes "lib_lawful lib" and "keys kek = Some material" and "length material = 32"
    and "length w = 60"
  shows "case sw_decrypt_field lib keys kek t w c of
    Ok m \<Rightarrow> length c = length m + 28 | Err e \<Rightarrow> e = Decrypt | Panic \<Rightarrow> False"
  using decrypt_field_valid_kek [of lib keys kek material w t c] decrypt_field_length [of lib keys kek t w c] assms
  by auto

lemma decryption_has_one_failure_witness:
  "case sw_decrypt_field sample_lib sample_keys (KeyHandle ''kek-1'') ''t1'' (replicate 60 0) [1, 2] of
    Ok m \<Rightarrow> length [1, 2 :: u8] = length m + 28 | Err e \<Rightarrow> e = Decrypt | Panic \<Rightarrow> False"
  by (rule decryption_has_one_failure [where keys = sample_keys, OF sample_lib_lawful sample_kek]) simp_all

text \<open>A handle the provider does not hold is an error that names the handle, never a default key,
  in every operation, and no randomness is drawn for it.\<close>

lemma unknown_handle_is_an_error:
  assumes "keys h = None"
  shows "sw_generate_wrapped_dek lib keys h t g = (Err (UnknownKey h), g) \<and>
    sw_encrypt_field lib keys h t w m g = (Err (UnknownKey h), g) \<and>
    sw_decrypt_field lib keys h t w c = Err (UnknownKey h) \<and>
    sw_blind_index lib keys h t i = Err (UnknownKey h)"
  using assms by (simp add: sw_generate_wrapped_dek_def sw_encrypt_field_def sw_decrypt_field_def
      sw_blind_index_def unwrap_dek_def kek_of_def)

end
