(* ===== verification/Webauthn.thy ===== *)
theory Webauthn
  imports Prelude
begin

text \<open>
  Assertion verification, \<open>crypto/src/webauthn.rs\<close>: \<open>verify\<close> with its checks in the order of the
  source, every slice access able to panic. JSON parsing, base64url, SHA-256 and P-256 come from
  crates that are not under \<open>src\<close>; they are the parameter \<open>lib\<close>.
\<close>

section \<open>The crates\<close>

text \<open>
  \<open>serde_json::from_slice\<close>, \<open>Value::get\<close> and \<open>Value::as_str\<close>; \<open>URL_SAFE_NO_PAD.decode\<close>;
  \<open>Sha256::digest\<close>; \<open>VerifyingKey::from_sec1_bytes\<close>, \<open>Signature::from_der\<close>,
  \<open>Signature::from_slice\<close> and \<open>VerifyingKey::verify\<close>. Their errors are never looked at, so
  \<open>None\<close> and \<open>False\<close> stand for them.
\<close>

record ('j, 'v, 's) webauthn_lib =
  json_from_slice :: "bytes \<Rightarrow> 'j option"
  json_get :: "'j \<Rightarrow> string \<Rightarrow> 'j option"
  json_as_str :: "'j \<Rightarrow> string option"
  b64url_decode :: "string \<Rightarrow> bytes option"
  sha256 :: "bytes \<Rightarrow> bytes"
  vk_from_sec1 :: "bytes \<Rightarrow> 'v option"
  sig_from_der :: "bytes \<Rightarrow> 's option"
  sig_from_slice :: "bytes \<Rightarrow> 's option"
  vk_verify :: "'v \<Rightarrow> bytes \<Rightarrow> 's \<Rightarrow> bool"

section \<open>Rejections\<close>

datatype Rejection =
    MalformedClientData | WrongType | ChallengeMismatch | OriginMismatch | RpIdMismatch
  | UserNotPresent | SignCountRegression | MalformedAuthenticatorData | UnsupportedKey | BadSignature

primrec rejection_code :: "Rejection \<Rightarrow> string" where
  "rejection_code MalformedClientData = ''malformed_client_data''"
| "rejection_code WrongType = ''wrong_type''"
| "rejection_code ChallengeMismatch = ''challenge_mismatch''"
| "rejection_code OriginMismatch = ''origin_mismatch''"
| "rejection_code RpIdMismatch = ''rp_id_mismatch''"
| "rejection_code UserNotPresent = ''user_not_present''"
| "rejection_code SignCountRegression = ''sign_count_regression''"
| "rejection_code MalformedAuthenticatorData = ''malformed_authenticator_data''"
| "rejection_code UnsupportedKey = ''unsupported_key''"
| "rejection_code BadSignature = ''bad_signature''"

section \<open>Verification\<close>

record Verified =
  verified_sign_count :: u32

record Expectations =
  exp_rp_id :: string
  exp_origin :: string
  exp_challenge :: bytes
  stored_sign_count :: u32

definition flag_up :: u8 where
  "flag_up = 1"

definition auth_data_min :: nat where
  "auth_data_min = 37"

text \<open>\<open>client.get(name).and_then(|v| v.as_str())\<close>\<close>

definition client_str :: "('j, 'v, 's) webauthn_lib \<Rightarrow> 'j \<Rightarrow> string \<Rightarrow> string option" where
  "client_str lib client name = Option.bind (json_get lib client name) (json_as_str lib)"

text \<open>Steps 4 to 6: the shape of the authenticator data, the relying party, presence and counter.\<close>

definition check_authenticator_data ::
    "('j, 'v, 's) webauthn_lib \<Rightarrow> Expectations \<Rightarrow> bytes \<Rightarrow> (u32, Rejection) res" where
  "check_authenticator_data lib ex authenticator_data =
     (if length authenticator_data < auth_data_min then Err MalformedAuthenticatorData
      else
        rbind (slice_to authenticator_data 32) (\<lambda>rp_hash.
        if rp_hash \<noteq> sha256 lib (as_bytes (exp_rp_id ex)) then Err RpIdMismatch
        else
          rbind (slice_index authenticator_data 32) (\<lambda>flags.
          if flags AND flag_up = 0 then Err UserNotPresent
          else
            rbind (slice_index authenticator_data 33) (\<lambda>b0.
            rbind (slice_index authenticator_data 34) (\<lambda>b1.
            rbind (slice_index authenticator_data 35) (\<lambda>b2.
            rbind (slice_index authenticator_data 36) (\<lambda>b3.
              let sign_count = u32_from_be_bytes b0 b1 b2 b3
              in if sign_count \<noteq> 0 \<and> sign_count \<le> stored_sign_count ex
                 then Err SignCountRegression
                 else Ok sign_count)))))))"

text \<open>Steps 1 to 3: the client data.\<close>

definition check_client_data ::
    "('j, 'v, 's) webauthn_lib \<Rightarrow> Expectations \<Rightarrow> bytes \<Rightarrow> (unit, Rejection) res" where
  "check_client_data lib ex client_data_json =
     rbind (ok_or (json_from_slice lib client_data_json) MalformedClientData) (\<lambda>client.
     if client_str lib client ''type'' \<noteq> Some ''webauthn.get'' then Err WrongType
     else
       rbind (ok_or (client_str lib client ''challenge'') MalformedClientData) (\<lambda>got_challenge.
       rbind (ok_or (b64url_decode lib got_challenge) MalformedClientData) (\<lambda>got_challenge.
       if got_challenge \<noteq> exp_challenge ex then Err ChallengeMismatch
       else if client_str lib client ''origin'' \<noteq> Some (exp_origin ex) then Err OriginMismatch
       else Ok ())))"

text \<open>Step 7: the signature, tried as DER first and as a fixed-size slice otherwise.\<close>

definition check_signature ::
    "('j, 'v, 's) webauthn_lib \<Rightarrow> bytes \<Rightarrow> bytes \<Rightarrow> bytes \<Rightarrow> bytes \<Rightarrow> (unit, Rejection) res" where
  "check_signature lib public_key_sec1 authenticator_data client_data_json signature =
     rbind (ok_or (vk_from_sec1 lib public_key_sec1) UnsupportedKey) (\<lambda>key.
     rbind (ok_or (case sig_from_der lib signature of
                     Some s \<Rightarrow> Some s
                   | None \<Rightarrow> sig_from_slice lib signature) BadSignature) (\<lambda>sg.
     let signed = authenticator_data @ sha256 lib client_data_json
     in if vk_verify lib key signed sg then Ok () else Err BadSignature))"

definition verify ::
    "('j, 'v, 's) webauthn_lib \<Rightarrow> Expectations \<Rightarrow> bytes \<Rightarrow> bytes \<Rightarrow> bytes \<Rightarrow> bytes \<Rightarrow>
       (Verified, Rejection) res" where
  "verify lib ex public_key_sec1 authenticator_data client_data_json signature =
     rbind (check_client_data lib ex client_data_json) (\<lambda>_.
     rbind (check_authenticator_data lib ex authenticator_data) (\<lambda>sign_count.
     rbind (check_signature lib public_key_sec1 authenticator_data client_data_json signature) (\<lambda>_.
       Ok \<lparr>verified_sign_count = sign_count\<rparr>)))"

section \<open>What a relying party must check\<close>

text \<open>The counter that the authenticator reports, bytes 33 to 36.\<close>

definition reported_count :: "bytes \<Rightarrow> u32" where
  "reported_count ad = u32_from_be_bytes (ad ! 33) (ad ! 34) (ad ! 35) (ad ! 36)"

definition client_field :: "('j, 'v, 's) webauthn_lib \<Rightarrow> bytes \<Rightarrow> string \<Rightarrow> string option" where
  "client_field lib cdj name = Option.bind (json_from_slice lib cdj) (\<lambda>j. client_str lib j name)"

definition signature_valid ::
    "('j, 'v, 's) webauthn_lib \<Rightarrow> bytes \<Rightarrow> bytes \<Rightarrow> bytes \<Rightarrow> bytes \<Rightarrow> bool" where
  "signature_valid lib pk ad cdj sg =
     (case (vk_from_sec1 lib pk, if sig_from_der lib sg = None then sig_from_slice lib sg else sig_from_der lib sg) of
        (Some key, Some s) \<Rightarrow> vk_verify lib key (ad @ sha256 lib cdj) s
      | _ \<Rightarrow> False)"

text \<open>The checks of the ceremony as a table, each with the rejection that reports its failure.\<close>

definition client_checks ::
    "('j, 'v, 's) webauthn_lib \<Rightarrow> Expectations \<Rightarrow> bytes \<Rightarrow> (bool \<times> Rejection) list" where
  "client_checks lib ex cdj =
     [(json_from_slice lib cdj \<noteq> None, MalformedClientData),
      (client_field lib cdj ''type'' = Some ''webauthn.get'', WrongType),
      (Option.bind (client_field lib cdj ''challenge'') (b64url_decode lib) \<noteq> None, MalformedClientData),
      (Option.bind (client_field lib cdj ''challenge'') (b64url_decode lib) = Some (exp_challenge ex),
       ChallengeMismatch),
      (client_field lib cdj ''origin'' = Some (exp_origin ex), OriginMismatch)]"

definition authenticator_checks ::
    "('j, 'v, 's) webauthn_lib \<Rightarrow> Expectations \<Rightarrow> bytes \<Rightarrow> (bool \<times> Rejection) list" where
  "authenticator_checks lib ex ad =
     [(37 \<le> length ad, MalformedAuthenticatorData),
      (take 32 ad = sha256 lib (as_bytes (exp_rp_id ex)), RpIdMismatch),
      (bit (ad ! 32) 0, UserNotPresent),
      (reported_count ad = 0 \<or> stored_sign_count ex < reported_count ad, SignCountRegression)]"

definition signature_checks ::
    "('j, 'v, 's) webauthn_lib \<Rightarrow> bytes \<Rightarrow> bytes \<Rightarrow> bytes \<Rightarrow> bytes \<Rightarrow> (bool \<times> Rejection) list" where
  "signature_checks lib pk ad cdj sg =
     [(vk_from_sec1 lib pk \<noteq> None, UnsupportedKey),
      (signature_valid lib pk ad cdj sg, BadSignature)]"

definition ceremony ::
    "('j, 'v, 's) webauthn_lib \<Rightarrow> Expectations \<Rightarrow> bytes \<Rightarrow> bytes \<Rightarrow> bytes \<Rightarrow> bytes \<Rightarrow>
       (bool \<times> Rejection) list" where
  "ceremony lib ex pk ad cdj sg =
     client_checks lib ex cdj @ authenticator_checks lib ex ad @ signature_checks lib pk ad cdj sg"

text \<open>The outcome of a table: the rejection of the first check that fails.\<close>

fun first_failure :: "(bool \<times> Rejection) list \<Rightarrow> 'a \<Rightarrow> ('a, Rejection) res" where
  "first_failure [] v = Ok v"
| "first_failure ((ok, r) # cs) v = (if ok then first_failure cs v else Err r)"

lemma first_failure_append:
  "first_failure (cs @ ds) v = rbind (first_failure cs ()) (\<lambda>_. first_failure ds v)"
  by (induction cs) auto

lemma first_failure_Ok_iff: "first_failure cs v = Ok w \<longleftrightarrow> w = v \<and> (\<forall>(ok, _) \<in> set cs. ok)"
  by (induction cs) (auto split: if_splits)

lemma flag_up_iff: "(f :: u8) AND flag_up = 0 \<longleftrightarrow> \<not> bit f 0"
proof -
  have "f AND 1 = 0 \<longleftrightarrow> \<not> bit f 0"
    by (simp add: and_one_eq bit_0 odd_iff_mod_2_eq_one even_iff_mod_2_eq_zero)
  then show ?thesis by (simp add: flag_up_def)
qed

lemma check_client_data_Ok_iff:
  "check_client_data lib ex cdj = Ok () \<longleftrightarrow>
     client_field lib cdj ''type'' = Some ''webauthn.get'' \<and>
     Option.bind (client_field lib cdj ''challenge'') (b64url_decode lib) = Some (exp_challenge ex) \<and>
     client_field lib cdj ''origin'' = Some (exp_origin ex)"
  by (cases "json_from_slice lib cdj")
    (auto simp: check_client_data_def client_field_def rbind_Ok_conv Option.bind_eq_Some_conv)

lemma check_authenticator_data_eq:
  "check_authenticator_data lib ex ad =
     (if length ad < 37 then Err MalformedAuthenticatorData
      else if take 32 ad \<noteq> sha256 lib (as_bytes (exp_rp_id ex)) then Err RpIdMismatch
      else if \<not> bit (ad ! 32) 0 then Err UserNotPresent
      else if reported_count ad \<noteq> 0 \<and> reported_count ad \<le> stored_sign_count ex
        then Err SignCountRegression
      else Ok (reported_count ad))"
  by (simp add: check_authenticator_data_def auth_data_min_def flag_up_iff reported_count_def)

lemma check_signature_Ok_iff:
  "check_signature lib pk ad cdj sg = Ok () \<longleftrightarrow> signature_valid lib pk ad cdj sg"
  by (auto simp: check_signature_def signature_valid_def rbind_Ok_conv Let_def split: option.splits)

section \<open>Each stage is its part of the table\<close>

lemma check_client_data_table: "check_client_data lib ex cdj = first_failure (client_checks lib ex cdj) ()"
  by (cases "json_from_slice lib cdj")
    (auto simp: client_checks_def check_client_data_def client_field_def ok_or_def split: option.splits)

lemma check_authenticator_data_table:
  "check_authenticator_data lib ex ad = first_failure (authenticator_checks lib ex ad) (reported_count ad)"
  by (auto simp: authenticator_checks_def check_authenticator_data_eq)

lemma check_signature_table:
  "check_signature lib pk ad cdj sg = first_failure (signature_checks lib pk ad cdj sg) ()"
  by (auto simp: check_signature_def signature_checks_def signature_valid_def Let_def ok_or_def
      split: option.splits)

lemma verify_Ok_iff:
  "verify lib ex pk ad cdj sg = Ok v \<longleftrightarrow>
     check_client_data lib ex cdj = Ok () \<and> check_authenticator_data lib ex ad = Ok (verified_sign_count v) \<and>
     check_signature lib pk ad cdj sg = Ok ()"
  by (cases v) (auto simp: verify_def rbind_Ok_conv)

lemma check_client_data_stored_count [simp]:
  "check_client_data lib (ex\<lparr>stored_sign_count := n\<rparr>) cdj = check_client_data lib ex cdj"
  by (simp add: check_client_data_def cong: if_cong)

lemma first_failure_no_panic [simp]: "first_failure cs v \<noteq> Panic"
  by (induction cs) (auto split: if_splits)

lemma verify_no_panic [simp]: "verify lib ex pk ad cdj sg \<noteq> Panic"
  by (auto simp: verify_def check_client_data_table check_authenticator_data_table
      check_signature_table rbind_Panic_conv)

lemma rejection_code_inject: "rejection_code r = rejection_code r' \<longleftrightarrow> r = r'"
  by (cases r; cases r') simp_all

lemma rejection_code_nonempty: "rejection_code r \<noteq> []"
  by (cases r) simp_all

lemma verify_ceremony:
  "verify lib ex pk ad cdj sg =
     first_failure (ceremony lib ex pk ad cdj sg) \<lparr>verified_sign_count = reported_count ad\<rparr>"
proof -
  have "rbind (first_failure cs n) (\<lambda>n. rbind (first_failure ds ()) (\<lambda>_. Ok \<lparr>verified_sign_count = n\<rparr>)) =
      first_failure (cs @ ds) \<lparr>verified_sign_count = n\<rparr>" for cs ds and n :: u32
  proof (induction cs)
    case Nil
    show ?case by (induction ds) auto
  qed auto
  then show ?thesis
    by (simp add: verify_def ceremony_def check_client_data_table check_authenticator_data_table
        check_signature_table first_failure_append)
qed

end
