(* ===== verification/Webauthn_Properties.thy ===== *)
theory Webauthn_Properties
  imports Webauthn
begin

text \<open>
  What an accepted assertion proves and which failure a rejected one reports
  (\<open>crypto/src/webauthn.rs\<close>): \<open>verify\<close> decides exactly the ceremony's checks and reports the first
  that fails, it never panics, an accepted assertion is bound to challenge, origin and relying
  party, and the signature counter never goes back, unless it is zero.
\<close>

section \<open>A stand-in for the crates\<close>

text \<open>Every non-empty text is one fixed client data object, digests and signatures are checksums:
  enough to apply the theorems to concrete values.\<close>

definition sample_crates :: "(string + (string \<times> string) list, bytes, bytes) webauthn_lib" where
  "sample_crates =
     \<lparr>json_from_slice = (\<lambda>b. if b = [] then None
        else Some (Inr [(''type'', ''webauthn.get''), (''challenge'', ''c1''), (''origin'', ''https://a'')])),
      json_get = (\<lambda>j k. case j of Inr m \<Rightarrow> map_option Inl (map_of m k) | Inl _ \<Rightarrow> None),
      json_as_str = (\<lambda>j. case j of Inl s \<Rightarrow> Some s | Inr _ \<Rightarrow> None),
      b64url_decode = (\<lambda>s. Some (as_bytes s)),
      sha256 = (\<lambda>b. replicate 32 (sum_list b)),
      vk_from_sec1 = (\<lambda>b. if length b = 65 then Some b else None),
      sig_from_der = (\<lambda>s. None),
      sig_from_slice = (\<lambda>s. if length s = 64 then Some s else None),
      vk_verify = (\<lambda>k m s. s = replicate 64 (sum_list k + sum_list m))\<rparr>"

definition sample_expectations :: Expectations where
  "sample_expectations =
     \<lparr>exp_rp_id = ''a'', exp_origin = ''https://a'', exp_challenge = as_bytes ''c1'', stored_sign_count = 4\<rparr>"

definition sample_auth_data :: "u8 \<Rightarrow> bytes" where
  "sample_auth_data n = replicate 32 97 @ [1, 0, 0, 0, n]"

lemma sample_accepted:
  "verify sample_crates sample_expectations (replicate 65 4) (sample_auth_data 5) [7] (replicate 64 10) =
     Ok \<lparr>verified_sign_count = 5\<rparr>"
  by (simp add: verify_def check_client_data_def check_authenticator_data_def check_signature_def
      client_str_def sample_crates_def sample_expectations_def sample_auth_data_def auth_data_min_def
      flag_up_def u32_from_be_bytes_def as_bytes_def of_char_def nth_append sum_list_replicate)

lemma sample_counts: "reported_count (sample_auth_data 5) = 5" "reported_count (sample_auth_data 0) = 0"
  by (simp_all add: reported_count_def sample_auth_data_def u32_from_be_bytes_def nth_append)

section \<open>Properties\<close>

text \<open>C5: verification is the ceremony: it accepts when every check of the table holds, and then
  returns the counter of the authenticator data; otherwise it reports the first check that
  fails. No index into the authenticator data is ever out of range.\<close>

theorem verify_is_the_ceremony:
  "verify lib ex pk ad cdj sg =
     first_failure (ceremony lib ex pk ad cdj sg) \<lparr>verified_sign_count = reported_count ad\<rparr>"
  by (rule verify_ceremony)

text \<open>C16: an accepted assertion is bound to its ceremony: presented again, under whatever key, against
  another challenge it is refused as a replay, against another origin as phishing, and for
  a relying party whose identifier hashes differently as foreign.\<close>

theorem accepted_assertion_is_bound:
  assumes "verify lib ex pk ad cdj sg = Ok v"
  shows "(exp_challenge ex' \<noteq> exp_challenge ex \<longrightarrow>
      verify lib ex' pk' ad cdj sg = Err ChallengeMismatch) \<and>
    (exp_challenge ex' = exp_challenge ex \<and> exp_origin ex' \<noteq> exp_origin ex \<longrightarrow>
      verify lib ex' pk' ad cdj sg = Err OriginMismatch) \<and>
    (exp_challenge ex' = exp_challenge ex \<and> exp_origin ex' = exp_origin ex \<and>
     sha256 lib (as_bytes (exp_rp_id ex')) \<noteq> sha256 lib (as_bytes (exp_rp_id ex)) \<longrightarrow>
      verify lib ex' pk' ad cdj sg = Err RpIdMismatch)"
proof -
  from assms have c: "check_client_data lib ex cdj = Ok ()" and "check_authenticator_data lib ex ad = Ok (verified_sign_count v)"
    by (simp_all add: verify_Ok_iff)
  then have a: "\<not> length ad < 37" "take 32 ad = sha256 lib (as_bytes (exp_rp_id ex))"
    by (auto simp: check_authenticator_data_eq split: if_splits)
  from c obtain client t where "json_from_slice lib cdj = Some client"
    "client_str lib client ''type'' = Some ''webauthn.get''"
    "client_str lib client ''challenge'' = Some t" "b64url_decode lib t = Some (exp_challenge ex)"
    "client_str lib client ''origin'' = Some (exp_origin ex)"
    by (auto simp: check_client_data_Ok_iff client_field_def Option.bind_eq_Some_conv)
  then show ?thesis
    using a by (simp add: verify_def check_client_data_def check_authenticator_data_eq)
qed

theorem accepted_assertion_is_bound_witness:
  "verify sample_crates sample_expectations (replicate 65 4) (sample_auth_data 5) [7] (replicate 64 10) =
     Ok \<lparr>verified_sign_count = 5\<rparr> \<and>
   verify sample_crates (sample_expectations\<lparr>exp_challenge := [9]\<rparr>) [] (sample_auth_data 5) [7]
     (replicate 64 10) = Err ChallengeMismatch"
  using accepted_assertion_is_bound [OF sample_accepted,
      of "sample_expectations\<lparr>exp_challenge := [9]\<rparr>" "[]"] sample_accepted
  by (simp add: sample_expectations_def as_bytes_def)

text \<open>C28: the counter never goes back: an accepted non-zero counter is larger than the stored one, and
  once it is stored, the same authenticator data and every other one with a smaller or equal
  non-zero counter is refused in any later ceremony, whatever key and signature come with it.\<close>

theorem sign_count_never_goes_back:
  assumes "verify lib ex pk ad cdj sg = Ok v" and "verified_sign_count v \<noteq> 0"
    and "stored_sign_count ex' = verified_sign_count v"
    and "reported_count ad' \<noteq> 0" and "reported_count ad' \<le> verified_sign_count v"
  shows "stored_sign_count ex < verified_sign_count v \<and> \<not> is_ok (verify lib ex' pk' ad' cdj' sg')"
  using assms by (auto simp: is_ok_conv verify_Ok_iff check_authenticator_data_eq split: if_splits)

theorem sign_count_never_goes_back_witness:
  "\<not> is_ok (verify sample_crates (sample_expectations\<lparr>stored_sign_count := 5\<rparr>) (replicate 65 4)
     (sample_auth_data 5) [7] (replicate 64 10))"
  using sign_count_never_goes_back [OF sample_accepted,
      of "sample_expectations\<lparr>stored_sign_count := 5\<rparr>" "sample_auth_data 5"]
  by (simp add: sample_counts)

text \<open>C38: a zero counter switches the cloned-authenticator check off: whatever counter is stored, the
  verdict on an assertion that reports zero is the verdict for a stored zero, so a clone that
  reports zero is never told from the original.\<close>

theorem zero_sign_count_disables_clone_detection:
  assumes "reported_count ad = 0"
  shows "verify lib (ex\<lparr>stored_sign_count := n\<rparr>) pk ad cdj sg =
    verify lib (ex\<lparr>stored_sign_count := 0\<rparr>) pk ad cdj sg"
  using assms by (simp add: verify_def check_authenticator_data_eq)

theorem zero_sign_count_disables_clone_detection_witness:
  "verify sample_crates (sample_expectations\<lparr>stored_sign_count := 1000\<rparr>) (replicate 65 4)
     (sample_auth_data 0) [7] (replicate 64 5) = Ok \<lparr>verified_sign_count = 0\<rparr>"
proof -
  have "verify sample_crates (sample_expectations\<lparr>stored_sign_count := 0\<rparr>) (replicate 65 4)
      (sample_auth_data 0) [7] (replicate 64 5) = Ok \<lparr>verified_sign_count = 0\<rparr>"
    by (simp add: verify_def check_client_data_def check_authenticator_data_def check_signature_def
        client_str_def sample_crates_def sample_expectations_def sample_auth_data_def auth_data_min_def
        flag_up_def u32_from_be_bytes_def as_bytes_def of_char_def nth_append sum_list_replicate)
  then show ?thesis
    using zero_sign_count_disables_clone_detection [OF sample_counts(2),
        where lib = sample_crates and ex = sample_expectations and n = 1000] by metis
qed

end
