(* ===== verification/Service.thy ===== *)
theory Service
  imports Context_Gate Rate_Limiter Software_Provider Webauthn
begin

text \<open>
  The Guard, \<open>crypto/src/service.rs\<close>: its state, the audit line, the rate check, the one shape of
  cryptographic failures, and the four handlers. A handler is a function from the process to a
  reply and the process after it; the reading of the clock is an argument. The locale
  \<open>gated_handler\<close> is what the handlers have in common; each of them interprets it.
\<close>

section \<open>The process\<close>

text \<open>\<open>Guard\<close>, and around it what a handler can affect: the random number generator, and the lines
  written to standard output and standard error.\<close>

record 'g Guard =
  provider :: "'g CryptoProvider"
  index_key :: KeyHandle
  kek :: KeyHandle
  limiter :: RateLimiter

record 'g Process = "'g Guard" +
  rng :: 'g
  stdout :: "string list"
  stderr :: "string list"

definition new_guard ::
    "hash_order \<Rightarrow> 'g CryptoProvider \<Rightarrow> KeyHandle \<Rightarrow> KeyHandle \<Rightarrow> 'g Guard" where
  "new_guard order prov index wrap =
     \<lparr>provider = prov, index_key = index, kek = wrap, limiter = default_limiter order\<rparr>"

text \<open>Fallible steps that change the process: an error or a panic ends the handler.\<close>

type_synonym ('a, 'g) step = "'g Process \<Rightarrow> ('a, Status) res \<times> 'g Process"

definition return :: "'a \<Rightarrow> ('a, 'g) step" where
  "return a p = (Ok a, p)"

definition sbind :: "('a, 'g) step \<Rightarrow> ('a \<Rightarrow> ('b, 'g) step) \<Rightarrow> ('b, 'g) step" where
  "sbind m f p =
     (case m p of
        (Ok a, p') \<Rightarrow> f a p'
      | (Err e, p') \<Rightarrow> (Err e, p')
      | (Panic, p') \<Rightarrow> (Panic, p'))"

definition expect :: "'a option \<Rightarrow> ('a, 'g) step" where
  "expect x p = (case x of Some a \<Rightarrow> (Ok a, p) | None \<Rightarrow> (Panic, p))"

section \<open>Audit\<close>

definition audit_line :: "string \<Rightarrow> RequestContext option \<Rightarrow> string \<Rightarrow> string" where
  \<open>audit_line op ctx outcome =
     (let (tenant, request) = (case ctx of Some c \<Rightarrow> (tenant_id c, request_id c) | None \<Rightarrow> ('''', ''''))
      in ''{"audit":"key_op","op":"'' @ op @ ''","tenant":"'' @ tenant @ ''","request":"'' @ request @
         ''","outcome":"'' @ outcome @ ''"}'')\<close>

definition audit :: "string \<Rightarrow> RequestContext option \<Rightarrow> string \<Rightarrow> 'g Process \<Rightarrow> 'g Process" where
  "audit op ctx outcome p = p\<lparr>stdout := stdout p @ [audit_line op ctx outcome]\<rparr>"

definition error_line :: "string \<Rightarrow> ProviderError \<Rightarrow> string" where
  \<open>error_line what e = ''{"error":"'' @ what @ ''","detail":"'' @ provider_error_display e @ ''"}''\<close>

definition eprintln :: "string \<Rightarrow> 'g Process \<Rightarrow> 'g Process" where
  "eprintln line p = p\<lparr>stderr := stderr p @ [line]\<rparr>"

section \<open>What every handler does first\<close>

text \<open>\<open>if let Err(e) = context::validate(..) { audit(.., "rejected"); return Err(e); }\<close>\<close>

definition gate :: "string \<Rightarrow> RequestContext option \<Rightarrow> Purpose \<Rightarrow> bool \<Rightarrow> (unit, 'g) step" where
  "gate op ctx want subject_required p =
     (case validate ctx want subject_required of
        Err e \<Rightarrow> (Err e, audit op ctx ''rejected'' p)
      | r \<Rightarrow> (r, p))"

definition within_limits ::
    "instant \<Rightarrow> string \<Rightarrow> RequestContext option \<Rightarrow> string \<Rightarrow> (unit, 'g) step" where
  "within_limits now op ctx tenant p =
     (let (ok, l) = allow (limiter p) now tenant op; p = p\<lparr>limiter := l\<rparr>
      in if ok then (Ok (), p)
         else (Err (resource_exhausted ''operation budget exceeded''), audit op ctx ''rate_limited'' p))"

text \<open>\<open>Guard::fail\<close>: one shape for every cryptographic failure.\<close>

definition fail_step :: "string \<Rightarrow> RequestContext option \<Rightarrow> ProviderError \<Rightarrow> ('a, 'g) step" where
  "fail_step op ctx e p =
     (let p = audit op ctx ''denied'' p
      in case e of
           Decrypt \<Rightarrow> (Err (permission_denied ''not available for this context''), p)
         | other \<Rightarrow> (Err (internal ''operation unavailable''), eprintln (error_line op other) p))"

section \<open>Handlers\<close>

text \<open>Each handler is the gate, the rate check and then its work; the work is a definition of its own.\<close>

definition verify_assertion_work ::
    "('j, 'v, 's) webauthn_lib \<Rightarrow> VerifyAssertionRequest \<Rightarrow> string \<Rightarrow> (VerifyAssertionResponse, 'g) step" where
  "verify_assertion_work lib msg tenant p =
     (let ctx = va_context msg in
      case (credential msg, assertion msg) of
        (Some cred, Some asn) \<Rightarrow>
          (let ex = \<lparr>exp_rp_id = rp_id msg, exp_origin = expected_origin msg,
                     exp_challenge = expected_challenge msg, stored_sign_count = sign_count cred\<rparr>
           in case verify lib ex (cose_public_key cred) (authenticator_data asn)
                     (client_data_json asn) (signature asn) of
                Ok v \<Rightarrow>
                  (Ok \<lparr>verdict = verdict_as_i32 Messages.Verified, reason = [],
                       new_sign_count = verified_sign_count v\<rparr>,
                   audit ''verify_assertion'' ctx ''verified'' p)
              | Err rejection \<Rightarrow>
                  (Ok \<lparr>verdict = verdict_as_i32 Rejected, reason = rejection_code rejection,
                       new_sign_count = sign_count cred\<rparr>,
                   audit ''verify_assertion'' ctx (rejection_code rejection) p)
              | Panic \<Rightarrow> (Panic, p))
      | _ \<Rightarrow>
          (Err (invalid_argument ''credential and assertion are required''),
           audit ''verify_assertion'' ctx ''rejected'' p))"

definition verify_assertion ::
    "('j, 'v, 's) webauthn_lib \<Rightarrow> instant \<Rightarrow> VerifyAssertionRequest \<Rightarrow> (VerifyAssertionResponse, 'g) step" where
  "verify_assertion lib now msg =
     (let ctx = va_context msg in
      sbind (gate ''verify_assertion'' ctx PasskeyLogin False) (\<lambda>_.
      sbind (expect ctx) (\<lambda>c.
      sbind (within_limits now ''verify_assertion'' ctx (tenant_id c)) (\<lambda>_.
        verify_assertion_work lib msg (tenant_id c)))))"

text \<open>The wrapped key a field is encrypted under: a fresh one when the request brings none.\<close>

definition row_dek :: "RequestContext option \<Rightarrow> string \<Rightarrow> bytes \<Rightarrow> (bytes, 'g) step" where
  "row_dek ctx tenant wrapped_dek p =
     (if wrapped_dek = [] then
        (case generate_wrapped_dek (provider p) (kek p) tenant (rng p) of
           (Ok w, g) \<Rightarrow> (Ok w, p\<lparr>rng := g\<rparr>)
         | (Err e, g) \<Rightarrow> fail_step ''encrypt_field'' ctx e (p\<lparr>rng := g\<rparr>)
         | (Panic, g) \<Rightarrow> (Panic, p\<lparr>rng := g\<rparr>))
      else (Ok wrapped_dek, p))"

definition encrypt_field_work :: "EncryptFieldRequest \<Rightarrow> string \<Rightarrow> (EncryptFieldResponse, 'g) step" where
  "encrypt_field_work msg tenant =
     (let ctx = ef_context msg in
      sbind (row_dek ctx tenant (ef_wrapped_dek msg)) (\<lambda>wrapped p.
        case encrypt_field (provider p) (kek p) tenant wrapped (ef_plaintext msg) (rng p) of
          (Ok ciphertext, g) \<Rightarrow>
            (Ok \<lparr>resp_ciphertext = ciphertext, resp_wrapped_dek = wrapped\<rparr>,
             audit ''encrypt_field'' ctx ''ok'' (p\<lparr>rng := g\<rparr>))
        | (Err e, g) \<Rightarrow> fail_step ''encrypt_field'' ctx e (p\<lparr>rng := g\<rparr>)
        | (Panic, g) \<Rightarrow> (Panic, p\<lparr>rng := g\<rparr>)))"

definition encrypt_field_handler ::
    "instant \<Rightarrow> EncryptFieldRequest \<Rightarrow> (EncryptFieldResponse, 'g) step" where
  "encrypt_field_handler now msg =
     (let ctx = ef_context msg in
      sbind (gate ''encrypt_field'' ctx RowEncrypt True) (\<lambda>_.
      sbind (expect ctx) (\<lambda>c.
      sbind (within_limits now ''encrypt_field'' ctx (tenant_id c)) (\<lambda>_.
        encrypt_field_work msg (tenant_id c)))))"

definition decrypt_field_work :: "DecryptFieldRequest \<Rightarrow> string \<Rightarrow> (DecryptFieldResponse, 'g) step" where
  "decrypt_field_work msg tenant p =
     (let ctx = df_context msg in
      case decrypt_field (provider p) (kek p) tenant (df_wrapped_dek msg) (df_ciphertext msg) of
        Ok plaintext \<Rightarrow> (Ok \<lparr>resp_plaintext = plaintext\<rparr>, audit ''decrypt_field'' ctx ''ok'' p)
      | Err e \<Rightarrow> fail_step ''decrypt_field'' ctx e p
      | Panic \<Rightarrow> (Panic, p))"

definition decrypt_field_handler ::
    "instant \<Rightarrow> DecryptFieldRequest \<Rightarrow> (DecryptFieldResponse, 'g) step" where
  "decrypt_field_handler now msg =
     (let ctx = df_context msg in
      sbind (gate ''decrypt_field'' ctx RowDecrypt True) (\<lambda>_.
      sbind (expect ctx) (\<lambda>c.
      sbind (within_limits now ''decrypt_field'' ctx (tenant_id c)) (\<lambda>_.
        decrypt_field_work msg (tenant_id c)))))"

definition blind_index_work :: "BlindIndexRequest \<Rightarrow> string \<Rightarrow> (BlindIndexResponse, 'g) step" where
  "blind_index_work msg tenant p =
     (let ctx = bi_context msg in
      case blind_index (provider p) (index_key p) tenant (bi_input msg) of
        Ok index \<Rightarrow> (Ok \<lparr>bi_index = index\<rparr>, audit ''blind_index'' ctx ''ok'' p)
      | Err e \<Rightarrow>
          (let p = audit ''blind_index'' ctx ''backend_error'' p
           in (Err (internal ''blind index unavailable''),
               eprintln (error_line ''blind_index backend'' e) p))
      | Panic \<Rightarrow> (Panic, p))"

definition blind_index_handler ::
    "instant \<Rightarrow> BlindIndexRequest \<Rightarrow> (BlindIndexResponse, 'g) step" where
  "blind_index_handler now msg =
     (let ctx = bi_context msg in
      sbind (gate ''blind_index'' ctx BlindIndex False) (\<lambda>_.
      sbind (expect ctx) (\<lambda>c.
      sbind (within_limits now ''blind_index'' ctx (tenant_id c)) (\<lambda>_.
        blind_index_work msg (tenant_id c)))))"

section \<open>Steps\<close>

text \<open>What a step never touches: the provider, the keys it is asked for, and the limiter.\<close>

definition same_guard :: "('g, 'a) Guard_scheme \<Rightarrow> ('g, 'a) Guard_scheme \<Rightarrow> bool" where
  "same_guard p p' \<longleftrightarrow>
     provider p' = provider p \<and> index_key p' = index_key p \<and> kek p' = kek p \<and> limiter p' = limiter p"

text \<open>A provider none of whose operations panics.\<close>

definition provider_total :: "'g CryptoProvider \<Rightarrow> bool" where
  "provider_total prov \<longleftrightarrow>
     (\<forall>k t g. fst (generate_wrapped_dek prov k t g) \<noteq> Panic) \<and>
     (\<forall>k t w m g. fst (encrypt_field prov k t w m g) \<noteq> Panic) \<and>
     (\<forall>k t w c. decrypt_field prov k t w c \<noteq> Panic) \<and>
     (\<forall>k t i. blind_index prov k t i \<noteq> Panic)"

lemma audit_sel [simp]:
  "provider (audit op ctx out p) = provider p" "index_key (audit op ctx out p) = index_key p"
  "kek (audit op ctx out p) = kek p" "limiter (audit op ctx out p) = limiter p"
  "rng (audit op ctx out p) = rng p" "stderr (audit op ctx out p) = stderr p"
  "stdout (audit op ctx out p) = stdout p @ [audit_line op ctx out]"
  by (simp_all add: audit_def)

lemma eprintln_sel [simp]:
  "provider (eprintln l p) = provider p" "index_key (eprintln l p) = index_key p"
  "kek (eprintln l p) = kek p" "limiter (eprintln l p) = limiter p"
  "rng (eprintln l p) = rng p" "stdout (eprintln l p) = stdout p" "stderr (eprintln l p) = stderr p @ [l]"
  by (simp_all add: eprintln_def)

lemma sbind_simps [simp]:
  "m p = (Ok a, p') \<Longrightarrow> sbind m f p = f a p'"
  "m p = (Err e, p') \<Longrightarrow> sbind m f p = (Err e, p')"
  "m p = (Panic, p') \<Longrightarrow> sbind m f p = (Panic, p')"
  by (simp_all add: sbind_def)

lemma expect_Some [simp]: "expect (Some x) p = (Ok x, p)"
  by (simp add: expect_def)

lemma fail_step_sel [simp]:
  "same_guard p (snd (fail_step op ctx e p))"
  "stdout (snd (fail_step op ctx e p)) = stdout p @ [audit_line op ctx ''denied'']"
  "rng (snd (fail_step op ctx e p)) = rng p"
  "\<exists>st. fst (fail_step op ctx e p) = Err st \<and> code st \<in> {PermissionDenied, Internal}"
  by (simp_all add: fail_step_def same_guard_def Let_def split: ProviderError.splits)

section \<open>The contract of a handler\<close>

text \<open>
  \<open>handler\<close> answers requests of its own operation: first the gate for the purpose \<open>want\<close>, then the
  limiter, then its \<open>work\<close>, which leaves the guard alone, writes exactly one audit line and does
  not panic as long as the provider does not.
\<close>

locale gated_handler =
  fixes handler :: "instant \<Rightarrow> 'req \<Rightarrow> ('resp, 'g) step"
    and context_of :: "'req \<Rightarrow> RequestContext option"
    and op :: string and want :: Purpose and subject_required :: bool
    and work :: "'req \<Rightarrow> string \<Rightarrow> ('resp, 'g) step"
  assumes checks_first: "handler now msg =
      sbind (gate op (context_of msg) want subject_required) (\<lambda>_.
      sbind (expect (context_of msg)) (\<lambda>c.
      sbind (within_limits now op (context_of msg) (tenant_id c)) (\<lambda>_. work msg (tenant_id c))))"
    and work_frame: "same_guard p (snd (work msg t p))"
    and work_total: "provider_total (provider p) \<Longrightarrow> fst (work msg t p) \<noteq> Panic"
    and work_audits: "fst (work msg t p) \<noteq> Panic \<Longrightarrow>
      \<exists>outcome. stdout (snd (work msg t p)) = stdout p @ [audit_line op (context_of msg) outcome]"
begin

lemma refused:
  assumes "validate (context_of msg) want subject_required = Err e"
  shows "handler now msg p = (Err e, audit op (context_of msg) ''rejected'' p)"
proof -
  have "gate op (context_of msg) want subject_required p =
      (Err e, audit op (context_of msg) ''rejected'' p)"
    by (simp add: gate_def assms)
  then show ?thesis by (simp add: checks_first)
qed

lemma after_gate:
  assumes "context_of msg = Some c" and "validate (Some c) want subject_required = Ok ()"
    and "allow (limiter p) now (tenant_id c) op = (ok, l)"
  shows "handler now msg p =
    (if ok then work msg (tenant_id c) (p\<lparr>limiter := l\<rparr>)
     else (Err (resource_exhausted ''operation budget exceeded''),
           audit op (Some c) ''rate_limited'' (p\<lparr>limiter := l\<rparr>)))"
proof -
  have "gate op (Some c) want subject_required p = (Ok (), p)" by (simp add: gate_def assms(2))
  moreover have "within_limits now op (Some c) (tenant_id c) p =
      (if ok then (Ok (), p\<lparr>limiter := l\<rparr>)
       else (Err (resource_exhausted ''operation budget exceeded''),
             audit op (Some c) ''rate_limited'' (p\<lparr>limiter := l\<rparr>)))"
    by (simp add: within_limits_def assms(3))
  ultimately show ?thesis by (cases ok) (simp_all add: checks_first assms(1))
qed

lemma limited:
  assumes "validate (context_of msg) want subject_required = Ok ()" and "context_of msg = Some c"
    and "allow (limiter p) now (tenant_id c) op = (False, l)"
  shows "handler now msg p =
    (Err (resource_exhausted ''operation budget exceeded''),
     audit op (context_of msg) ''rate_limited'' (p\<lparr>limiter := l\<rparr>))"
  using after_gate [OF assms(2) _ assms(3)] assms(1,2) by simp

text \<open>The three ways through a handler.\<close>

lemma handler_cases:
  obtains (rejected) e where "validate (context_of msg) want subject_required = Err e"
      "handler now msg p = (Err e, audit op (context_of msg) ''rejected'' p)"
  | (limited) c l where "context_of msg = Some c" "validate (Some c) want subject_required = Ok ()"
      "allow (limiter p) now (tenant_id c) op = (False, l)"
      "handler now msg p = (Err (resource_exhausted ''operation budget exceeded''),
         audit op (Some c) ''rate_limited'' (p\<lparr>limiter := l\<rparr>))"
  | (worked) c l where "context_of msg = Some c" "validate (Some c) want subject_required = Ok ()"
      "allow (limiter p) now (tenant_id c) op = (True, l)"
      "handler now msg p = work msg (tenant_id c) (p\<lparr>limiter := l\<rparr>)"
proof (cases "validate (context_of msg) want subject_required")
  case (Ok u)
  then obtain c where c: "context_of msg = Some c" by (rule validate_OkD)
  obtain ok l where "allow (limiter p) now (tenant_id c) op = (ok, l)" by fastforce
  with after_gate [OF c _ this] Ok c that(2,3) show ?thesis by (cases ok) auto
next
  case (Err e)
  with refused [OF Err] that(1) show ?thesis by blast
qed simp

lemma audited_once:
  assumes "provider_total (provider p)"
  shows "fst (handler now msg p) \<noteq> Panic" and
    "\<exists>outcome. stdout (snd (handler now msg p)) = stdout p @ [audit_line op (context_of msg) outcome]"
proof -
  have "fst (handler now msg p) \<noteq> Panic \<and>
    (\<exists>outcome. stdout (snd (handler now msg p)) = stdout p @ [audit_line op (context_of msg) outcome])"
  proof (cases rule: handler_cases [of msg now p])
    case (worked c l)
    then show ?thesis
      using work_total [of "p\<lparr>limiter := l\<rparr>" msg "tenant_id c"]
        work_audits [of msg "tenant_id c" "p\<lparr>limiter := l\<rparr>"] assms by simp
  qed auto
  then show "fst (handler now msg p) \<noteq> Panic"
    "\<exists>outcome. stdout (snd (handler now msg p)) = stdout p @ [audit_line op (context_of msg) outcome]"
    by simp_all
qed

lemma handler_frame:
  shows "provider (snd (handler now msg p)) = provider p" and "kek (snd (handler now msg p)) = kek p"
    and "index_key (snd (handler now msg p)) = index_key p"
proof -
  have "same_guard (p\<lparr>limiter := l\<rparr>) (snd (work msg t (p\<lparr>limiter := l\<rparr>)))" for l t
    by (rule work_frame)
  then show "provider (snd (handler now msg p)) = provider p" "kek (snd (handler now msg p)) = kek p"
    "index_key (snd (handler now msg p)) = index_key p"
    by (cases rule: handler_cases [of msg now p]; simp add: same_guard_def)+
qed

lemma handler_limiter:
  "limiter (snd (handler now msg p)) =
     (case (context_of msg, validate (context_of msg) want subject_required) of
        (Some c, Ok _) \<Rightarrow> snd (allow (limiter p) now (tenant_id c) op)
      | _ \<Rightarrow> limiter p)"
proof (cases rule: handler_cases [of msg now p])
  case (worked c l)
  then show ?thesis using work_frame [of "p\<lparr>limiter := l\<rparr>" msg "tenant_id c"] by (simp add: same_guard_def)
qed (auto split: option.splits)

text \<open>A reply is possible only if the gate let the request through and the limiter admitted it.\<close>

lemma answered_is_admitted:
  assumes "handler now msg p = (Ok reply, p')"
  obtains c where "context_of msg = Some c" "validate (Some c) want subject_required = Ok ()"
    "fst (allow (limiter p) now (tenant_id c) op)"
  using assms by (cases rule: handler_cases [of msg now p]) auto

end

section \<open>The handlers keep the contract\<close>

lemma same_guard_refl [simp]: "same_guard p p"
  by (simp add: same_guard_def)

lemma same_guard_trans: "same_guard p q \<Longrightarrow> same_guard q r \<Longrightarrow> same_guard p r"
  by (simp add: same_guard_def)

lemma same_guard_steps [simp]:
  "same_guard p (audit op ctx out q) = same_guard p q"
  "same_guard p (eprintln l q) = same_guard p q"
  "same_guard p (q\<lparr>rng := g\<rparr>) = same_guard p q"
  by (simp_all add: same_guard_def)

lemma fail_step_frame [simp]: "same_guard p (snd (fail_step op ctx e q)) = same_guard p q"
  by (simp add: fail_step_def same_guard_def Let_def split: ProviderError.splits)

lemma fail_step_no_panic [simp]: "fst (fail_step op ctx e p) \<noteq> Panic"
  by (simp add: fail_step_def Let_def split: ProviderError.splits)

lemma verify_work_shape:
  "\<exists>out reply. reply \<noteq> Panic \<and>
     verify_assertion_work lib msg tenant p = (reply, audit ''verify_assertion'' (va_context msg) out p)"
proof (cases "\<exists>cred asn. credential msg = Some cred \<and> assertion msg = Some asn")
  case True
  then obtain cred asn where a: "credential msg = Some cred" "assertion msg = Some asn" by blast
  let ?v = "verify lib \<lparr>exp_rp_id = rp_id msg, exp_origin = expected_origin msg,
      exp_challenge = expected_challenge msg, stored_sign_count = sign_count cred\<rparr>
    (cose_public_key cred) (authenticator_data asn) (client_data_json asn) (signature asn)"
  show ?thesis by (cases ?v) (auto simp: verify_assertion_work_def a)
next
  case False
  then have "verify_assertion_work lib msg tenant p =
      (Err (invalid_argument ''credential and assertion are required''),
       audit ''verify_assertion'' (va_context msg) ''rejected'' p)"
    by (cases "credential msg"; cases "assertion msg") (simp_all add: verify_assertion_work_def)
  then show ?thesis by blast
qed

interpretation verify_assertion: gated_handler "verify_assertion lib" va_context
  "''verify_assertion''" PasskeyLogin False "verify_assertion_work lib"
proof (unfold_locales, goal_cases)
  case 1
  show ?case by (simp add: verify_assertion_def Let_def)
next
  case (2 p msg t)
  show ?case using verify_work_shape [of lib msg t p] by auto
next
  case (3 p msg t)
  show ?case using verify_work_shape [of lib msg t p] by auto
next
  case (4 msg t p)
  show ?case using verify_work_shape [of lib msg t p] by auto
qed

interpretation decrypt_field: gated_handler decrypt_field_handler df_context
  "''decrypt_field''" RowDecrypt True decrypt_field_work
  by unfold_locales (auto simp: decrypt_field_handler_def decrypt_field_work_def provider_total_def
      Let_def split: res.splits)

interpretation blind_index: gated_handler blind_index_handler bi_context
  "''blind_index''" BlindIndex False blind_index_work
  by unfold_locales (auto simp: blind_index_handler_def blind_index_work_def provider_total_def
      Let_def split: res.splits)

lemma provider_totalD:
  assumes "provider_total prov"
  shows "generate_wrapped_dek prov k t g \<noteq> (Panic, g')" and "encrypt_field prov k t w m g \<noteq> (Panic, g')"
    and "decrypt_field prov k t w c \<noteq> Panic" and "blind_index prov k t i \<noteq> Panic"
  using assms unfolding provider_total_def by (metis fst_conv)+

text \<open>Encryption has two ways to fail, minting the key and sealing the field.\<close>

lemma row_dek_cases:
  obtains (dek) w g where "row_dek ctx t w0 p = (Ok w, p\<lparr>rng := g\<rparr>)"
  | (failed) e g where "row_dek ctx t w0 p = fail_step ''encrypt_field'' ctx e (p\<lparr>rng := g\<rparr>)"
  | (panic) g where "row_dek ctx t w0 p = (Panic, p\<lparr>rng := g\<rparr>)" "\<not> provider_total (provider p)"
proof (cases "w0 = []")
  case True
  obtain r g where r: "generate_wrapped_dek (provider p) (kek p) t (rng p) = (r, g)" by fastforce
  show ?thesis
  proof (cases r)
    case Panic
    with r have "\<not> provider_total (provider p)" using provider_totalD(1) by metis
    with Panic r True that(3) show ?thesis by (simp add: row_dek_def)
  qed (use r True that(1,2) in \<open>simp_all add: row_dek_def\<close>)
next
  case False
  then show ?thesis using that(1) [of w0 "rng p"] by (simp add: row_dek_def)
qed

lemma encrypt_work_cases:
  obtains (ok) reply g where "encrypt_field_work msg t p =
      (Ok reply, audit ''encrypt_field'' (ef_context msg) ''ok'' (p\<lparr>rng := g\<rparr>))"
  | (failed) e g where "encrypt_field_work msg t p =
      fail_step ''encrypt_field'' (ef_context msg) e (p\<lparr>rng := g\<rparr>)"
  | (panic) g where "encrypt_field_work msg t p = (Panic, p\<lparr>rng := g\<rparr>)" "\<not> provider_total (provider p)"
proof (cases rule: row_dek_cases [of "ef_context msg" t "ef_wrapped_dek msg" p])
  case (dek w g)
  obtain r g' where r: "encrypt_field (provider p) (kek p) t w (ef_plaintext msg) g = (r, g')"
    by fastforce
  show ?thesis
  proof (cases r)
    case Panic
    with r have "\<not> provider_total (provider p)" using provider_totalD(2) by metis
    with Panic r dek that(3) show ?thesis by (simp add: encrypt_field_work_def Let_def)
  qed (use r dek that(1,2) in \<open>simp_all add: encrypt_field_work_def Let_def\<close>)
next
  case (failed e g)
  obtain st p' where "fail_step ''encrypt_field'' (ef_context msg) e (p\<lparr>rng := g\<rparr>) = (Err st, p')"
    by (metis fail_step_sel(4) prod.collapse)
  then show ?thesis
    using failed that(2) [of e g] by (simp add: encrypt_field_work_def fail_step_def Let_def split: ProviderError.splits)
next
  case (panic g)
  with that(3) show ?thesis by (simp add: encrypt_field_work_def Let_def)
qed

interpretation encrypt_field: gated_handler encrypt_field_handler ef_context
  "''encrypt_field''" RowEncrypt True encrypt_field_work
proof (unfold_locales, goal_cases)
  case 1
  show ?case by (simp add: encrypt_field_handler_def Let_def)
next
  case (2 p msg t)
  show ?case by (cases rule: encrypt_work_cases [of msg t p]) simp_all
next
  case (3 p msg t)
  then show ?case by (cases rule: encrypt_work_cases [of msg t p]) simp_all
next
  case (4 msg t p)
  then show ?case by (cases rule: encrypt_work_cases [of msg t p]) auto
qed

section \<open>What the handlers do with the provider\<close>

lemma encrypt_field_answered:
  assumes "encrypt_field_handler now m p = (Ok resp, p')"
  obtains c g g' where "ef_context m = Some c"
    "encrypt_field (provider p) (kek p) (tenant_id c) (resp_wrapped_dek resp) (ef_plaintext m) g =
       (Ok (resp_ciphertext resp), g')"
proof -
  obtain c l where c: "ef_context m = Some c"
    and w: "encrypt_field_work m (tenant_id c) (p\<lparr>limiter := l\<rparr>) = (Ok resp, p')"
    using assms by (cases rule: encrypt_field.handler_cases [of m now p]) auto
  show ?thesis
  proof (cases rule: row_dek_cases [of "ef_context m" "tenant_id c" "ef_wrapped_dek m" "p\<lparr>limiter := l\<rparr>"])
    case (dek w g)
    obtain r g' where "encrypt_field (provider p) (kek p) (tenant_id c) w (ef_plaintext m) g = (r, g')"
      by fastforce
    with dek \<open>encrypt_field_work _ _ _ = _\<close> that [OF c] show ?thesis
      by (cases r) (auto simp: encrypt_field_work_def Let_def fail_step_def split: ProviderError.splits)
  next
    case (failed e g)
    with w show ?thesis
      by (auto simp: encrypt_field_work_def Let_def fail_step_def sbind_def split: ProviderError.splits)
  qed (use w in \<open>simp add: encrypt_field_work_def Let_def\<close>)
qed

text \<open>A decryption that the gate and the limiter let through.\<close>

lemma decrypt_field_reaches_provider:
  assumes "validate (Some c) RowDecrypt True = Ok ()" and "df_context m = Some c"
    and "fst (allow (limiter p) now (tenant_id c) ''decrypt_field'')"
  obtains p' where "provider p' = provider p" "kek p' = kek p" "stdout p' = stdout p" "stderr p' = stderr p"
    "decrypt_field_handler now m p = decrypt_field_work m (tenant_id c) p'"
proof -
  obtain l where "allow (limiter p) now (tenant_id c) ''decrypt_field'' = (True, l)"
    using assms(3) by (metis prod.collapse)
  from decrypt_field.after_gate [OF assms(2,1) this] that [of "p\<lparr>limiter := l\<rparr>"] show ?thesis by simp
qed

text \<open>The provider's contract carries over to rows: they decrypt for their own tenant and, short of a
  forgery, for no other.\<close>

context crypto_provider begin

lemma row_round_trip:
  assumes "lawful e" and "provider p = prov e" and "provider q = prov e" and "kek q = kek p"
    and "encrypt_field_handler now m p = (Ok resp, p')" and "ef_context m = Some c"
    and "df_context m' = Some c'" and "tenant_id c' = tenant_id c"
    and "df_ciphertext m' = resp_ciphertext resp" and "df_wrapped_dek m' = resp_wrapped_dek resp"
    and "validate (Some c') RowDecrypt True = Ok ()"
    and "fst (allow (limiter q) now' (tenant_id c') ''decrypt_field'')"
  shows "fst (decrypt_field_handler now' m' q) = Ok \<lparr>resp_plaintext = ef_plaintext m\<rparr>"
proof -
  obtain g g' where "encrypt_field (prov e) (kek p) (tenant_id c) (resp_wrapped_dek resp) (ef_plaintext m) g =
      (Ok (resp_ciphertext resp), g')"
    using encrypt_field_answered [OF assms(5)] assms(2,6) by (metis option.inject)
  from decrypt_encrypt [OF assms(1) this]
  have d: "decrypt_field (prov e) (kek p) (tenant_id c) (resp_wrapped_dek resp) (resp_ciphertext resp) =
      Ok (ef_plaintext m)" .
  obtain q' where "provider q' = provider q" "kek q' = kek q"
    "decrypt_field_handler now' m' q = decrypt_field_work m' (tenant_id c') q'"
    using decrypt_field_reaches_provider [OF assms(11,7,12)] by blast
  with d assms(3,4,8-10) show ?thesis by (simp add: decrypt_field_work_def Let_def)
qed

lemma row_is_sealed:
  assumes "lawful e" and "provider p = prov e" and "provider q = prov e" and "kek q = kek p"
    and "encrypt_field_handler now m p = (Ok resp, p')" and "ef_context m = Some c"
    and "df_context m' = Some c'" and "tenant_id c' \<noteq> tenant_id c"
    and "df_wrapped_dek m' = resp_wrapped_dek resp"
    and "\<not> ambiguous e (kek p) (tenant_id c) (tenant_id c') (resp_wrapped_dek resp)"
  shows "\<exists>st. fst (decrypt_field_handler now' m' q) = Err st \<and>
    st \<noteq> internal ''operation unavailable'' \<and>
    (validate (Some c') RowDecrypt True = Ok () \<and>
     fst (allow (limiter q) now' (tenant_id c') ''decrypt_field'') \<longrightarrow>
       st = permission_denied ''not available for this context'')"
proof -
  obtain g g' where "encrypt_field (prov e) (kek p) (tenant_id c) (resp_wrapped_dek resp) (ef_plaintext m) g =
      (Ok (resp_ciphertext resp), g')"
    using encrypt_field_answered [OF assms(5)] assms(2,6) by (metis option.inject)
  from foreign_dek_sealed(1) [OF assms(1) this assms(8,10)]
  have d: "decrypt_field (prov e) (kek p) (tenant_id c') (resp_wrapped_dek resp) (df_ciphertext m') = Err Decrypt" .
  show ?thesis
  proof (cases rule: decrypt_field.handler_cases [of m' now' q])
    case (rejected x)
    then show ?thesis
      using assms(7) by (auto simp: validate_def Let_def internal_def invalid_argument_def
          permission_denied_def split: if_splits)
  next
    case (limited d l)
    then show ?thesis using assms(7) by (simp add: resource_exhausted_def internal_def)
  next
    case (worked d' l)
    with d assms(3,4,7,9) show ?thesis
      by (simp add: decrypt_field_work_def fail_step_def Let_def permission_denied_def internal_def)
  qed
qed

end

end
