(* ===== verification/Server.thy ===== *)
theory Server
  imports Service
begin

text \<open>
  The four operations of the Guard as one kind of request: dispatch to the handlers of
  \<open>crypto/src/service.rs\<close>, what the gate and the limiter see of a request, and runs of the service
  over many requests. \<open>Crypto_Grpc\<close> puts the generated gRPC layer in front.
\<close>

section \<open>Requests and replies\<close>

datatype Rpc =
    Rpc_VerifyAssertion VerifyAssertionRequest
  | Rpc_EncryptField EncryptFieldRequest
  | Rpc_DecryptField DecryptFieldRequest
  | Rpc_BlindIndex BlindIndexRequest

datatype Reply =
    Reply_VerifyAssertion VerifyAssertionResponse
  | Reply_EncryptField EncryptFieldResponse
  | Reply_DecryptField DecryptFieldResponse
  | Reply_BlindIndex BlindIndexResponse

definition map_step :: "('a \<Rightarrow> 'b) \<Rightarrow> ('a, 'g) step \<Rightarrow> ('b, 'g) step" where
  "map_step f m = sbind m (\<lambda>a. return (f a))"

text \<open>The trait \<open>CryptoService\<close>: one method per request type.\<close>

primrec serve :: "('j, 'v, 's) webauthn_lib \<Rightarrow> instant \<Rightarrow> Rpc \<Rightarrow> (Reply, 'g) step" where
  "serve lib now (Rpc_VerifyAssertion m) = map_step Reply_VerifyAssertion (verify_assertion lib now m)"
| "serve lib now (Rpc_EncryptField m) = map_step Reply_EncryptField (encrypt_field_handler now m)"
| "serve lib now (Rpc_DecryptField m) = map_step Reply_DecryptField (decrypt_field_handler now m)"
| "serve lib now (Rpc_BlindIndex m) = map_step Reply_BlindIndex (blind_index_handler now m)"

section \<open>What the gate asks of a request\<close>

primrec rpc_context :: "Rpc \<Rightarrow> RequestContext option" where
  "rpc_context (Rpc_VerifyAssertion m) = va_context m"
| "rpc_context (Rpc_EncryptField m) = ef_context m"
| "rpc_context (Rpc_DecryptField m) = df_context m"
| "rpc_context (Rpc_BlindIndex m) = bi_context m"

primrec rpc_op :: "Rpc \<Rightarrow> string" where
  "rpc_op (Rpc_VerifyAssertion m) = ''verify_assertion''"
| "rpc_op (Rpc_EncryptField m) = ''encrypt_field''"
| "rpc_op (Rpc_DecryptField m) = ''decrypt_field''"
| "rpc_op (Rpc_BlindIndex m) = ''blind_index''"

primrec rpc_purpose :: "Rpc \<Rightarrow> Purpose" where
  "rpc_purpose (Rpc_VerifyAssertion m) = PasskeyLogin"
| "rpc_purpose (Rpc_EncryptField m) = RowEncrypt"
| "rpc_purpose (Rpc_DecryptField m) = RowDecrypt"
| "rpc_purpose (Rpc_BlindIndex m) = BlindIndex"

primrec rpc_needs_subject :: "Rpc \<Rightarrow> bool" where
  "rpc_needs_subject (Rpc_VerifyAssertion m) = False"
| "rpc_needs_subject (Rpc_EncryptField m) = True"
| "rpc_needs_subject (Rpc_DecryptField m) = True"
| "rpc_needs_subject (Rpc_BlindIndex m) = False"

definition rpc_gate :: "Rpc \<Rightarrow> (unit, Status) res" where
  "rpc_gate r = validate (rpc_context r) (rpc_purpose r) (rpc_needs_subject r)"

text \<open>The call of the limiter that a request makes, if the gate lets it through.\<close>

definition limiter_calls :: "instant \<times> Rpc \<Rightarrow> call list" where
  "limiter_calls = (\<lambda>(now, r).
     (case (rpc_context r, rpc_gate r) of
        (Some c, Ok _) \<Rightarrow> [(now, tenant_id c, rpc_op r)]
      | _ \<Rightarrow> []))"

fun run_requests ::
    "('j, 'v, 's) webauthn_lib \<Rightarrow> (instant \<times> Rpc) list \<Rightarrow> 'g Process \<Rightarrow>
       (Reply, Status) res list \<times> 'g Process" where
  "run_requests lib [] p = ([], p)"
| "run_requests lib ((now, r) # rs) p =
     (let (reply, p') = serve lib now r p; (replies, p'') = run_requests lib rs p'
      in (reply # replies, p''))"

section \<open>One request\<close>

lemma map_step_snd [simp]: "snd (map_step f m p) = snd (m p)"
  by (auto simp: map_step_def sbind_def return_def split_beta split: res.splits)

lemma map_step_fst:
  "fst (map_step f m p) = (case fst (m p) of Ok a \<Rightarrow> Ok (f a) | Err e \<Rightarrow> Err e | Panic \<Rightarrow> Panic)"
  by (auto simp: map_step_def sbind_def return_def split_beta split: res.splits)

lemma map_step_Panic [simp]: "fst (map_step f m p) = Panic \<longleftrightarrow> fst (m p) = Panic"
  by (auto simp: map_step_fst split: res.splits)

lemma map_step_eq:
  "m p = (Err e, p') \<Longrightarrow> map_step f m p = (Err e, p')"
  "m p = (Ok a, p') \<Longrightarrow> map_step f m p = (Ok (f a), p')"
  by (simp_all add: map_step_def return_def)

lemma serve_total: "provider_total (provider p) \<Longrightarrow> fst (serve lib now r p) \<noteq> Panic"
  by (cases r) (simp_all add: verify_assertion.audited_once(1) encrypt_field.audited_once(1)
      decrypt_field.audited_once(1) blind_index.audited_once(1))

lemma serve_audited_once:
  "provider_total (provider p) \<Longrightarrow> \<exists>outcome.
     stdout (snd (serve lib now r p)) = stdout p @ [audit_line (rpc_op r) (rpc_context r) outcome]"
  by (cases r) (simp_all add: verify_assertion.audited_once(2) encrypt_field.audited_once(2)
      decrypt_field.audited_once(2) blind_index.audited_once(2))

lemma serve_refused:
  "rpc_gate r = Err e \<Longrightarrow> serve lib now r p = (Err e, audit (rpc_op r) (rpc_context r) ''rejected'' p)"
  by (cases r) (simp_all add: rpc_gate_def map_step_eq verify_assertion.refused encrypt_field.refused
      decrypt_field.refused blind_index.refused)

lemma serve_limited:
  assumes "rpc_gate r = Ok ()" and "rpc_context r = Some c"
    and "allow (limiter p) now (tenant_id c) (rpc_op r) = (False, l)"
  shows "serve lib now r p =
    (Err (resource_exhausted ''operation budget exceeded''),
     audit (rpc_op r) (rpc_context r) ''rate_limited'' (p\<lparr>limiter := l\<rparr>))"
proof (cases r)
  case (Rpc_VerifyAssertion m)
  with assms map_step_eq(1) [of "verify_assertion lib now m" p, OF
      verify_assertion.limited [of m c p now l lib]] show ?thesis
    by (simp add: rpc_gate_def)
next
  case (Rpc_EncryptField m)
  with assms map_step_eq(1) [of "encrypt_field_handler now m" p, OF
      encrypt_field.limited [of m c p now l]] show ?thesis
    by (simp add: rpc_gate_def)
next
  case (Rpc_DecryptField m)
  with assms map_step_eq(1) [of "decrypt_field_handler now m" p, OF
      decrypt_field.limited [of m c p now l]] show ?thesis
    by (simp add: rpc_gate_def)
next
  case (Rpc_BlindIndex m)
  with assms map_step_eq(1) [of "blind_index_handler now m" p, OF
      blind_index.limited [of m c p now l]] show ?thesis
    by (simp add: rpc_gate_def)
qed

lemma serve_frame:
  "provider (snd (serve lib now r p)) = provider p" "kek (snd (serve lib now r p)) = kek p"
  "index_key (snd (serve lib now r p)) = index_key p"
  by (cases r; simp add: verify_assertion.handler_frame encrypt_field.handler_frame
      decrypt_field.handler_frame blind_index.handler_frame)+

lemma serve_limiter:
  "limiter (snd (serve lib now r p)) = snd (run_calls (limiter p) (limiter_calls (now, r)))"
proof -
  have "limiter (snd (serve lib now r p)) =
      (case (rpc_context r, rpc_gate r) of
         (Some c, Ok _) \<Rightarrow> snd (allow (limiter p) now (tenant_id c) (rpc_op r))
       | _ \<Rightarrow> limiter p)"
    by (induct r) (simp_all add: rpc_gate_def verify_assertion.handler_limiter
        encrypt_field.handler_limiter decrypt_field.handler_limiter blind_index.handler_limiter
        split: option.split res.split)
  then show ?thesis
    by (auto simp: limiter_calls_def split_beta split: option.splits res.splits)
qed

text \<open>A reply that carries a result was let through by the gate and by the limiter.\<close>

lemma map_step_Ok: "is_ok (fst (map_step f m p)) \<longleftrightarrow> is_ok (fst (m p))"
  by (simp add: map_step_fst is_ok_def split: res.split)

lemma serve_answered:
  assumes "is_ok (fst (serve lib now r p))"
  obtains c where "rpc_context r = Some c" "rpc_gate r = Ok ()"
    "fst (allow (limiter p) now (tenant_id c) (rpc_op r))"
proof (cases "rpc_gate r")
  case (Ok u)
  then obtain c where c: "rpc_context r = Some c" unfolding rpc_gate_def by (rule validate_OkD)
  obtain ok l where a: "allow (limiter p) now (tenant_id c) (rpc_op r) = (ok, l)" by fastforce
  have ok
  proof (rule ccontr)
    assume "\<not> ok"
    then show False using serve_limited [of r c p now l lib] Ok c a assms by simp
  qed
  with that c a Ok show ?thesis by simp
next
  case (Err e)
  then show ?thesis using serve_refused [OF Err, of lib now p] assms by simp
qed (simp add: rpc_gate_def)

section \<open>Many requests\<close>

definition calls_of :: "(instant \<times> Rpc) list \<Rightarrow> call list" where
  "calls_of rs = concat (map limiter_calls rs)"

text \<open>The number of requests for \<open>op\<close> that were answered with a result.\<close>

fun answered :: "string \<Rightarrow> (instant \<times> Rpc) list \<Rightarrow> (Reply, Status) res list \<Rightarrow> nat" where
  "answered op ((_, r) # rs) (reply # replies) =
     of_bool (rpc_op r = op \<and> is_ok reply) + answered op rs replies"
| "answered op _ _ = 0"

lemma run_requests_Cons:
  "fst (run_requests lib ((now, r) # rs) p) =
     fst (serve lib now r p) # fst (run_requests lib rs (snd (serve lib now r p)))"
  "snd (run_requests lib ((now, r) # rs) p) = snd (run_requests lib rs (snd (serve lib now r p)))"
  by (simp_all add: split_beta)

lemma run_requests_frame:
  "provider (snd (run_requests lib rs p)) = provider p" "kek (snd (run_requests lib rs p)) = kek p"
  "index_key (snd (run_requests lib rs p)) = index_key p"
  by (induction rs arbitrary: p) (auto simp: split_beta serve_frame)

lemma run_calls_append:
  "snd (run_calls l (cs @ ds)) = snd (run_calls (snd (run_calls l cs)) ds)"
  by (induction cs arbitrary: l) (auto simp: split_beta)

lemma run_requests_limiter:
  "limiter (snd (run_requests lib rs p)) = snd (run_calls (limiter p) (calls_of rs))"
  by (induction rs arbitrary: p) (auto simp: calls_of_def split_beta serve_limiter run_calls_append)

lemma limiter_calls_cases:
  obtains "limiter_calls (now, r) = []" "\<And>c. \<not> (rpc_context r = Some c \<and> rpc_gate r = Ok ())"
  | c where "rpc_context r = Some c" "rpc_gate r = Ok ()"
      "limiter_calls (now, r) = [(now, tenant_id c, rpc_op r)]"
  by (cases "rpc_context r"; cases "rpc_gate r") (auto simp: limiter_calls_def)

lemma answered_le_admitted:
  "answered op rs (fst (run_requests lib rs p)) \<le> admitted op (limiter p) (calls_of rs)"
proof (induction rs arbitrary: p)
  case (Cons nr rs)
  obtain now r where nr: "nr = (now, r)" by (cases nr)
  define p' where "p' = snd (serve lib now r p)"
  define reply where "reply = fst (serve lib now r p)"
  have step: "answered op (nr # rs) (fst (run_requests lib (nr # rs) p)) =
      of_bool (rpc_op r = op \<and> is_ok reply) + answered op rs (fst (run_requests lib rs p'))"
    by (simp add: nr p'_def reply_def split_beta)
  have l': "limiter p' = snd (run_calls (limiter p) (limiter_calls (now, r)))"
    by (simp add: p'_def serve_limiter)
  show ?case
  proof (cases rule: limiter_calls_cases [of now r])
    case 1
    have "\<not> is_ok reply"
      using serve_answered [of lib now r p] 1(2) unfolding reply_def by blast
    with 1(1) Cons.IH [of p'] l' show ?thesis unfolding step by (simp add: calls_of_def nr)
  next
    case (2 c)
    have "is_ok reply \<longrightarrow> fst (allow (limiter p) now (tenant_id c) (rpc_op r))"
      using serve_answered [of lib now r p] 2(1) unfolding reply_def by (metis option.inject)
    with 2(3) Cons.IH [of p'] l' show ?thesis
      unfolding step by (auto simp: calls_of_def nr split_beta)
  qed
qed simp

lemma limiter_calls_bounds:
  "set (map fst (limiter_calls nr)) \<subseteq> {fst nr}" "length (limiter_calls nr) \<le> 1"
  by (auto simp: limiter_calls_def split: prod.splits option.splits res.splits)

lemma calls_of_simps:
  "calls_of [] = []"
  "calls_of (nr # rs) = limiter_calls nr @ calls_of rs"
  by (simp_all add: calls_of_def)

lemma calls_of_subset: "set (map fst (calls_of rs)) \<subseteq> set (map fst rs)"
proof (induction rs)
  case (Cons nr rs)
  then show ?case using limiter_calls_bounds(1) [of nr] by (simp add: calls_of_simps) blast
qed (simp add: calls_of_simps)

lemma calls_of_sorted: "sorted (map fst rs) \<Longrightarrow> sorted (map fst (calls_of rs))"
proof (induction rs)
  case (Cons nr rs)
  have "sorted (map fst (limiter_calls nr))"
    using limiter_calls_bounds(2) [of nr] by (cases "limiter_calls nr") auto
  moreover have "\<forall>x \<in> set (map fst (limiter_calls nr)). \<forall>y \<in> set (map fst (calls_of rs)). x \<le> y"
    using limiter_calls_bounds(1) [of nr] calls_of_subset [of rs] Cons.prems by fastforce
  ultimately show ?case using Cons by (simp add: calls_of_simps sorted_append)
qed (simp add: calls_of_simps)

lemma calls_of_length: "length (calls_of rs) \<le> length rs"
proof (induction rs)
  case (Cons nr rs)
  then show ?case using limiter_calls_bounds(2) [of nr] by (simp add: calls_of_simps)
qed (simp add: calls_of_simps)

end
