(* ===== verification/Service_Properties.thy ===== *)
theory Service_Properties
  imports Server Rate_Limiter_Properties Software_Provider_Properties Webauthn_Properties
begin

text \<open>
  What the Guard of \<open>crypto/src/service.rs\<close> guarantees: no work before the checks,
  one audit line per request, failures that tell a caller nothing, verdicts that report the
  ceremony, and what an audit line identifies.
\<close>

section \<open>A sample process\<close>

definition sample_context :: "string \<Rightarrow> Purpose \<Rightarrow> RequestContext" where
  "sample_context t p = \<lparr>tenant_id = t, subject_id = ''s1'', purpose = purpose_as_i32 p, request_id = ''req-1''\<rparr>"

definition sample_process :: "nat Process" where
  "sample_process =
     \<lparr>provider = software_provider (sample_lib, sample_keys), index_key = KeyHandle ''idx-1'',
      kek = KeyHandle ''kek-1'', limiter = default_limiter id, rng = 5, stdout = [], stderr = []\<rparr>"

lemma sample_context_accepted:
  "t \<noteq> [] \<Longrightarrow> p \<noteq> Purpose_Unspecified \<Longrightarrow> validate (Some (sample_context t p)) p s = Ok ()"
  by (simp add: validate_Ok_cases well_formed_context_def sample_context_def get_purpose_as_i32)

lemma sample_process_sel [simp]:
  "provider sample_process = software_provider (sample_lib, sample_keys)"
  "kek sample_process = KeyHandle ''kek-1''" "index_key sample_process = KeyHandle ''idx-1''"
  "limiter sample_process = default_limiter id" "rng sample_process = 5"
  by (simp_all add: sample_process_def)

lemma default_admits_first:
  "\<forall>xs. mset (order xs) = mset xs \<Longrightarrow> fst (allow (default_limiter order) now t op)"
  by (intro first_call_is_admitted default_limiter_ok) simp_all

lemma software_total:
  "lib_lawful lib \<Longrightarrow> provider_total (software_provider (lib, keys))"
  using software.no_panic [of "(lib, keys)"] by (simp add: provider_total_def)

text \<open>A first write of the sample process, and what it returns.\<close>

definition sample_row :: EncryptFieldRequest where
  "sample_row = \<lparr>ef_context = Some (sample_context ''t1'' RowEncrypt), ef_plaintext = [1], ef_wrapped_dek = []\<rparr>"

definition sample_wrapped :: bytes where
  "sample_wrapped = replicate 12 6 @ replicate 32 5 @
     sample_tag (replicate 32 3) (replicate 12 6) (replicate 32 5) (aad domain_dek_wrap ''t1'')"

definition sample_ciphertext :: bytes where
  "sample_ciphertext = replicate 12 7 @ [1] @
     sample_tag (replicate 32 5) (replicate 12 7) [1] (aad domain_field ''t1'')"

lemma sample_written:
  "\<exists>p'. encrypt_field_handler 0 sample_row sample_process =
     (Ok \<lparr>resp_ciphertext = sample_ciphertext, resp_wrapped_dek = sample_wrapped\<rparr>, p') \<and>
     limiter p' = snd (allow (default_limiter id) 0 ''t1'' ''encrypt_field'')"
proof -
  let ?c = "sample_context ''t1'' RowEncrypt"
  have t: "tenant_id ?c = ''t1''" by (simp add: sample_context_def)
  define l where "l = snd (allow (default_limiter id) 0 ''t1'' ''encrypt_field'')"
  have "fst (allow (default_limiter id) 0 ''t1'' ''encrypt_field'')" by (rule default_admits_first) simp
  then have a: "allow (limiter sample_process) 0 (tenant_id ?c) ''encrypt_field'' = (True, l)"
    by (simp add: t l_def prod_eq_iff)
  have "encrypt_field_handler 0 sample_row sample_process =
      encrypt_field_work sample_row ''t1'' (sample_process\<lparr>limiter := l\<rparr>)"
    using encrypt_field.after_gate [OF _ sample_context_accepted a, of sample_row]
    by (simp add: t sample_row_def)
  also have "\<dots> = (Ok \<lparr>resp_ciphertext = sample_ciphertext, resp_wrapped_dek = sample_wrapped\<rparr>,
      audit ''encrypt_field'' (Some ?c) ''ok'' (sample_process\<lparr>limiter := l, rng := 8\<rparr>))"
  proof -
    have "row_dek (Some ?c) ''t1'' [] (sample_process\<lparr>limiter := l\<rparr>) =
        (Ok sample_wrapped, sample_process\<lparr>limiter := l, rng := 7\<rparr>)"
      using sample_generate [of "''t1''"] by (simp add: row_dek_def sample_wrapped_def)
    moreover have "sw_encrypt_field sample_lib sample_keys (KeyHandle ''kek-1'') ''t1'' sample_wrapped [1] 7 =
        (Ok sample_ciphertext, 8)"
      using sample_encrypt [of "''t1''" "[1]" 7] by (simp add: sample_wrapped_def sample_ciphertext_def)
    ultimately show ?thesis by (simp add: encrypt_field_work_def sample_row_def Let_def)
  qed
  finally show ?thesis by (simp add: l_def)
qed

section \<open>Checks before work\<close>

text \<open>C6: no work before the checks. A request that the gate refuses changes nothing but the audit
  trail, and one that exceeds its budget nothing but the audit trail and the limiter: in
  neither case is the provider asked or randomness drawn.\<close>

theorem refused_requests_do_no_work:
  "(rpc_gate r = Err e \<longrightarrow> serve lib now r p =
      (Err e, p\<lparr>stdout := stdout p @ [audit_line (rpc_op r) (rpc_context r) ''rejected'']\<rparr>)) \<and>
   (rpc_gate r = Ok () \<and> rpc_context r = Some c \<and> allow (limiter p) now (tenant_id c) (rpc_op r) = (False, l) \<longrightarrow>
      serve lib now r p = (Err (resource_exhausted ''operation budget exceeded''),
        p\<lparr>limiter := l, stdout := stdout p @ [audit_line (rpc_op r) (rpc_context r) ''rate_limited'']\<rparr>))"
  using serve_refused [of r e lib now p] serve_limited [of r c p now l lib]
  by (simp add: audit_def)

theorem refused_requests_do_no_work_witness:
  "serve sample_crates 0 (Rpc_DecryptField \<lparr>df_context = None, df_ciphertext = [1], df_wrapped_dek = []\<rparr>)
     sample_process =
   (Err (invalid_argument ''request_context is required''),
    sample_process\<lparr>stdout := [audit_line ''decrypt_field'' None ''rejected'']\<rparr>)"
proof -
  let ?r = "Rpc_DecryptField \<lparr>df_context = None, df_ciphertext = [1], df_wrapped_dek = []\<rparr>"
  have "rpc_gate ?r = Err (invalid_argument ''request_context is required'')"
    by (simp add: rpc_gate_def validate_None)
  with refused_requests_do_no_work [of ?r _ sample_crates 0 sample_process] show ?thesis
    by (simp add: sample_process_def)
qed

text \<open>C7: every request is audited, exactly once and under its own operation and context, whether it
  is refused, fails or succeeds, and none panics, as long as the provider does not.\<close>

theorem every_request_is_audited_once:
  assumes "provider_total (provider p)"
  shows "\<exists>lines. stdout (snd (run_requests lib rs p)) = stdout p @ lines \<and>
    list_all2 (\<lambda>(now, r) line. \<exists>outcome. line = audit_line (rpc_op r) (rpc_context r) outcome) rs lines \<and>
    Panic \<notin> set (fst (run_requests lib rs p))"
  using assms
proof (induction rs arbitrary: p)
  case (Cons nr rs)
  obtain now r where nr: "nr = (now, r)" by (cases nr)
  define p' where "p' = snd (serve lib now r p)"
  have "provider_total (provider p')" using Cons.prems by (simp add: p'_def serve_frame)
  from Cons.IH [OF this] obtain lines where l: "stdout (snd (run_requests lib rs p')) = stdout p' @ lines"
    "list_all2 (\<lambda>(now, r) line. \<exists>outcome. line = audit_line (rpc_op r) (rpc_context r) outcome) rs lines"
    "Panic \<notin> set (fst (run_requests lib rs p'))" by blast
  obtain out where "stdout p' = stdout p @ [audit_line (rpc_op r) (rpc_context r) out]"
    using serve_audited_once [OF Cons.prems] unfolding p'_def by blast
  moreover have "fst (serve lib now r p) \<noteq> Panic" using Cons.prems by (rule serve_total)
  ultimately show ?case
    using l unfolding nr
    by (intro exI [of _ "audit_line (rpc_op r) (rpc_context r) out # lines"])
      (auto simp: run_requests_Cons p'_def [symmetric] simp del: run_requests.simps)
qed simp

theorem every_request_is_audited_once_witness:
  "\<exists>outcome. stdout (snd (run_requests sample_crates
      [(0, Rpc_BlindIndex \<lparr>bi_context = Some (sample_context ''t1'' BlindIndex), bi_input = [1]\<rparr>)] sample_process)) =
    [audit_line ''blind_index'' (Some (sample_context ''t1'' BlindIndex)) outcome]"
  using every_request_is_audited_once [of sample_process sample_crates
      "[(0, Rpc_BlindIndex \<lparr>bi_context = Some (sample_context ''t1'' BlindIndex), bi_input = [1]\<rparr>)]"]
    software_total [OF sample_lib_lawful, of sample_keys]
  by (auto simp: list_all2_Cons1 sample_process_def)

section \<open>Replies\<close>

text \<open>C29: a caller learns nothing from a failed decryption. With a loaded key of the right size and a
  wrapped key of the size the service mints, a decryption that the gate and the limiter let
  through either returns the plaintext or one fixed status, which is the same for a wrong tenant, a
  wrong key, tampered or truncated bytes; nothing is written to standard error.\<close>

theorem decrypt_failures_reveal_nothing:
  assumes "lib_lawful lib" and "provider p = software_provider (lib, keys)"
    and "keys (kek p) = Some material" and "length material = 32" and "length (df_wrapped_dek m) = 60"
    and "df_context m = Some c" and "validate (Some c) RowDecrypt True = Ok ()"
    and "fst (allow (limiter p) now (tenant_id c) ''decrypt_field'')"
  shows "case decrypt_field_handler now m p of (reply, p') \<Rightarrow>
    stderr p' = stderr p \<and>
    (if is_ok reply then stdout p' = stdout p @ [audit_line ''decrypt_field'' (Some c) ''ok'']
     else reply = Err (permission_denied ''not available for this context'') \<and>
       stdout p' = stdout p @ [audit_line ''decrypt_field'' (Some c) ''denied''])"
proof -
  obtain q where q: "provider q = provider p" "kek q = kek p" "stdout q = stdout p" "stderr q = stderr p"
    "decrypt_field_handler now m p = decrypt_field_work m (tenant_id c) q"
    by (rule decrypt_field_reaches_provider [OF assms(7,6,8)])
  have "sw_decrypt_field lib keys (kek p) (tenant_id c) (df_wrapped_dek m) (df_ciphertext m) = Err Decrypt \<or>
      (\<exists>x. sw_decrypt_field lib keys (kek p) (tenant_id c) (df_wrapped_dek m) (df_ciphertext m) = Ok x)"
    by (rule decrypt_field_valid_kek [where keys = keys and material = material])
      (rule assms)+
  with q assms(2,6) show ?thesis
    by (auto simp: decrypt_field_work_def fail_step_def Let_def)
qed

theorem decrypt_failures_reveal_nothing_witness:
  "let m = \<lparr>df_context = Some (sample_context ''t2'' RowDecrypt), df_ciphertext = [1],
            df_wrapped_dek = replicate 60 0\<rparr>
   in case decrypt_field_handler 0 m sample_process of (reply, p') \<Rightarrow> stderr p' = []"
  using decrypt_failures_reveal_nothing [of sample_lib sample_process sample_keys "replicate 32 3"
      "\<lparr>df_context = Some (sample_context ''t2'' RowDecrypt), df_ciphertext = [1],
        df_wrapped_dek = replicate 60 0\<rparr>" "sample_context ''t2'' RowDecrypt" 0]
    sample_lib_lawful sample_kek sample_context_accepted [of "''t2''" RowDecrypt True]
    default_admits_first [of id]
  by (auto simp: sample_process_def)

text \<open>C30: the verdict is the ceremony. A login that the gate and the limiter let through and that
  carries a credential and an assertion is always answered: with \<open>Verified\<close>, no reason and the
  reported counter when every check holds, and otherwise with \<open>Rejected\<close>, the stored counter and
  the code of the first check that fails.\<close>

theorem verdict_reports_the_ceremony:
  assumes "va_context m = Some c" and "validate (Some c) PasskeyLogin False = Ok ()"
    and "fst (allow (limiter p) now (tenant_id c) ''verify_assertion'')"
    and "credential m = Some cred" and "assertion m = Some asn"
  shows "\<exists>reply p'. verify_assertion lib now m p = (Ok reply, p') \<and>
    (case first_failure (ceremony lib \<lparr>exp_rp_id = rp_id m, exp_origin = expected_origin m,
         exp_challenge = expected_challenge m, stored_sign_count = sign_count cred\<rparr>
         (cose_public_key cred) (authenticator_data asn) (client_data_json asn) (signature asn)) () of
       Ok _ \<Rightarrow> reply = \<lparr>verdict = 1, reason = [], new_sign_count = reported_count (authenticator_data asn)\<rparr>
     | Err r \<Rightarrow> reply = \<lparr>verdict = 2, reason = rejection_code r, new_sign_count = sign_count cred\<rparr>
     | Panic \<Rightarrow> False) \<and>
    stdout p' = stdout p @ [audit_line ''verify_assertion'' (Some c)
      (if verdict reply = 1 then ''verified'' else reason reply)]"
proof -
  obtain l where l: "allow (limiter p) now (tenant_id c) ''verify_assertion'' = (True, l)"
    using assms(3) by (metis prod.collapse)
  let ?cs = "ceremony lib \<lparr>exp_rp_id = rp_id m, exp_origin = expected_origin m,
    exp_challenge = expected_challenge m, stored_sign_count = sign_count cred\<rparr>
    (cose_public_key cred) (authenticator_data asn) (client_data_json asn) (signature asn)"
  have "verify lib \<lparr>exp_rp_id = rp_id m, exp_origin = expected_origin m,
      exp_challenge = expected_challenge m, stored_sign_count = sign_count cred\<rparr>
      (cose_public_key cred) (authenticator_data asn) (client_data_json asn) (signature asn) =
    first_failure ?cs \<lparr>verified_sign_count = reported_count (authenticator_data asn)\<rparr>"
    by (rule verify_ceremony)
  moreover have "first_failure ?cs \<lparr>verified_sign_count = reported_count (authenticator_data asn)\<rparr> =
      rbind (first_failure ?cs ()) (\<lambda>_. Ok \<lparr>verified_sign_count = reported_count (authenticator_data asn)\<rparr>)"
    using first_failure_append [of ?cs "[]"] by simp
  ultimately show ?thesis
    unfolding verify_assertion.after_gate [OF assms(1,2) l]
    by (cases "first_failure ?cs ()") (auto simp: verify_assertion_work_def assms(1,4,5) Let_def)
qed

definition sample_login :: VerifyAssertionRequest where
  "sample_login =
     \<lparr>va_context = Some (sample_context ''t1'' PasskeyLogin), rp_id = ''a'', expected_origin = ''https://a'',
      expected_challenge = as_bytes ''c1'',
      credential = Some \<lparr>cose_public_key = replicate 65 4, sign_count = 4\<rparr>,
      assertion = Some \<lparr>authenticator_data = sample_auth_data 5, client_data_json = [], signature = []\<rparr>\<rparr>"

theorem verdict_reports_the_ceremony_witness:
  "\<exists>reply p'. verify_assertion sample_crates 0 sample_login sample_process = (Ok reply, p') \<and>
     verdict reply = 2 \<and> reason reply = ''malformed_client_data''"
proof -
  have none: "json_from_slice sample_crates [] = None" by (simp add: sample_crates_def)
  have "fst (allow (limiter sample_process) 0 (tenant_id (sample_context ''t1'' PasskeyLogin)) ''verify_assertion'')"
    using default_admits_first [of id] by simp
  from verdict_reports_the_ceremony [OF _ sample_context_accepted this, of sample_login _ _ sample_crates]
  show ?thesis
    by (fastforce simp: sample_login_def ceremony_def client_checks_def none)
qed

section \<open>The audit trail\<close>

lemma split_at_quote:
  "x @ q # xs = y @ q # ys \<Longrightarrow> q \<notin> set x \<Longrightarrow> q \<notin> set y \<Longrightarrow> x = y \<and> xs = ys"
proof (induction x arbitrary: y)
  case Nil
  then show ?case by (cases y) auto
next
  case (Cons a x)
  then show ?case by (cases y) auto
qed

lemma audit_line_fields:
  "audit_line op (Some c) out = ''{\"audit\":\"key_op\",\"op\":\"'' @ op @ CHR 0x22 # '',\"tenant\":\"'' @
     tenant_id c @ CHR 0x22 # '',\"request\":\"'' @ request_id c @ CHR 0x22 # '',\"outcome\":\"'' @
     out @ CHR 0x22 # ''}''"
  by (simp add: audit_line_def)

text \<open>C35: an audit line identifies what it records: as long as no identifier contains a quotation mark,
  two lines are equal only for the same operation, tenant, request and outcome.\<close>

theorem audit_line_identifies_the_request:
  assumes "audit_line op (Some c) out = audit_line op' (Some c') out'"
    and "CHR 0x22 \<notin> set (op @ tenant_id c @ request_id c @ out)"
    and "CHR 0x22 \<notin> set (op' @ tenant_id c' @ request_id c' @ out')"
  shows "op = op' \<and> tenant_id c = tenant_id c' \<and> request_id c = request_id c' \<and> out = out'"
proof -
  note no_quote = assms(2,3) [unfolded set_append Un_iff de_Morgan_disj]
  from assms(1) have "op @ CHR 0x22 # '',\"tenant\":\"'' @ tenant_id c @ CHR 0x22 # '',\"request\":\"'' @
      request_id c @ CHR 0x22 # '',\"outcome\":\"'' @ out @ CHR 0x22 # ''}'' =
    op' @ CHR 0x22 # '',\"tenant\":\"'' @ tenant_id c' @ CHR 0x22 # '',\"request\":\"'' @
      request_id c' @ CHR 0x22 # '',\"outcome\":\"'' @ out' @ CHR 0x22 # ''}''"
    unfolding audit_line_fields by simp
  with no_quote have op: "op = op'" and "tenant_id c @ CHR 0x22 # '',\"request\":\"'' @
      request_id c @ CHR 0x22 # '',\"outcome\":\"'' @ out @ CHR 0x22 # ''}'' =
    tenant_id c' @ CHR 0x22 # '',\"request\":\"'' @ request_id c' @ CHR 0x22 # '',\"outcome\":\"'' @
      out' @ CHR 0x22 # ''}''"
    by (auto dest!: split_at_quote)
  from this(2) no_quote have t: "tenant_id c = tenant_id c'" and "request_id c @ CHR 0x22 #
      '',\"outcome\":\"'' @ out @ CHR 0x22 # ''}'' = request_id c' @ CHR 0x22 # '',\"outcome\":\"'' @
      out' @ CHR 0x22 # ''}''"
    by (auto dest!: split_at_quote)
  from this(2) no_quote have "request_id c = request_id c'" and "out = out'"
    by (auto dest!: split_at_quote)
  with op t show ?thesis by simp
qed

theorem audit_line_identifies_the_request_witness:
  "audit_line ''decrypt_field'' (Some (sample_context ''t1'' RowDecrypt)) ''ok'' \<noteq>
   audit_line ''decrypt_field'' (Some (sample_context ''t2'' RowDecrypt)) ''ok''"
  using audit_line_identifies_the_request [of "''decrypt_field''" "sample_context ''t1'' RowDecrypt" "''ok''"
      "''decrypt_field''" "sample_context ''t2'' RowDecrypt" "''ok''"]
  by (auto simp: sample_context_def)

text \<open>C39: identifiers are printed as they come, so a caller can forge the audit trail: for every two
  records, of whatever operation, tenant, request and outcome, there is a request identifier with
  which one single request prints both, line break included.\<close>

theorem audit_trail_can_be_forged:
  "\<exists>rid. audit_line op (Some (c\<lparr>request_id := rid\<rparr>)) out =
     audit_line op (Some (c\<lparr>request_id := r1\<rparr>)) out1 @ [CHR 0x0A] @ audit_line op2 (Some c2) out"
proof (rule exI)
  show "audit_line op (Some (c\<lparr>request_id := r1 @ ''\",\"outcome\":\"'' @ out1 @ ''\"}'' @ [CHR 0x0A] @
        ''{\"audit\":\"key_op\",\"op\":\"'' @ op2 @ ''\",\"tenant\":\"'' @ tenant_id c2 @
        ''\",\"request\":\"'' @ request_id c2\<rparr>)) out =
      audit_line op (Some (c\<lparr>request_id := r1\<rparr>)) out1 @ [CHR 0x0A] @ audit_line op2 (Some c2) out"
    by (simp add: audit_line_def)
qed

end
