(* ===== verification/Reply_Types.thy ===== *)
theory Reply_Types
  imports Service_Properties
begin

text \<open>
  The types of the Guard's answers, sharper than the protobuf messages: which replies the
  handlers of \<open>crypto/src/service.rs\<close> can give to which request, and the few statuses that every
  refusal and failure is mapped to. No status carries a byte of a request or of a key.
\<close>

section \<open>Replies\<close>

fun reply_fits :: "Rpc \<Rightarrow> Reply \<Rightarrow> bool" where
  "reply_fits (Rpc_VerifyAssertion m) (Reply_VerifyAssertion v) =
     (case (credential m, assertion m) of
        (Some cred, Some asn) \<Rightarrow>
          (verdict v = verdict_as_i32 Messages.Verified \<and> reason v = []) \<or>
          (verdict v = verdict_as_i32 Rejected \<and> reason v \<in> range rejection_code \<and>
           new_sign_count v = sign_count cred)
      | _ \<Rightarrow> False)"
| "reply_fits (Rpc_EncryptField m) (Reply_EncryptField e) =
     (length (resp_ciphertext e) = length (ef_plaintext m) + 28 \<and>
      (if ef_wrapped_dek m = [] then length (resp_wrapped_dek e) = 60
       else resp_wrapped_dek e = ef_wrapped_dek m))"
| "reply_fits (Rpc_DecryptField m) (Reply_DecryptField d) =
     (length (df_ciphertext m) = length (resp_plaintext d) + 28)"
| "reply_fits (Rpc_BlindIndex m) (Reply_BlindIndex b) = (length (bi_index b) = 32)"
| "reply_fits _ _ = False"

text \<open>Every status that a request can be answered with.\<close>

definition gate_statuses :: "Rpc \<Rightarrow> Status set" where
  "gate_statuses r =
     {invalid_argument ''request_context is required'',
      invalid_argument ''request_id is required: every key operation is individually audited'',
      invalid_argument ''tenant_id is required (T10)'',
      invalid_argument ''PURPOSE_UNSPECIFIED is always rejected (T9)''} \<union>
     (if rpc_needs_subject r then {invalid_argument ''subject_id is required for row operations''} else {}) \<union>
     (\<lambda>got. permission_denied (''purpose '' @ purpose_debug got @ '' does not match this operation (T9)'')) `
       (- {Purpose_Unspecified, rpc_purpose r})"

primrec work_statuses :: "Rpc \<Rightarrow> Status set" where
  "work_statuses (Rpc_VerifyAssertion m) = {invalid_argument ''credential and assertion are required''}"
| "work_statuses (Rpc_EncryptField m) =
     {permission_denied ''not available for this context'', internal ''operation unavailable''}"
| "work_statuses (Rpc_DecryptField m) =
     {permission_denied ''not available for this context'', internal ''operation unavailable''}"
| "work_statuses (Rpc_BlindIndex m) = {internal ''blind index unavailable''}"

definition status_fits :: "Rpc \<Rightarrow> Status \<Rightarrow> bool" where
  "status_fits r st \<longleftrightarrow>
     st \<in> insert (resource_exhausted ''operation budget exceeded'') (gate_statuses r \<union> work_statuses r)"

section \<open>One handler at a time\<close>

lemma gate_status:
  assumes "rpc_gate r = Err e"
  shows "status_fits r e"
  using assms
  by (auto simp: rpc_gate_def validate_def status_fits_def gate_statuses_def Let_def rbind_def ok_or_def
      split: if_splits option.splits)

lemma limited_status: "status_fits r (resource_exhausted ''operation budget exceeded'')"
  by (simp add: status_fits_def)

text \<open>What a handler answers is a refusal of the gate, of the limiter, or the result of its work.\<close>

definition answers :: "Rpc \<Rightarrow> (Reply, Status) res \<Rightarrow> bool" where
  "answers r = (\<lambda>Ok reply \<Rightarrow> reply_fits r reply | Err st \<Rightarrow> status_fits r st | Panic \<Rightarrow> False)"

lemma fail_step_status [simp]:
  "fst (fail_step op ctx e p) = Err (if e = Decrypt then permission_denied ''not available for this context''
     else internal ''operation unavailable'')"
  by (simp add: fail_step_def Let_def split: ProviderError.split)

lemma sbind_fail [simp]: "m p = fail_step op ctx e q \<Longrightarrow> fst (sbind m f p) =
    Err (if e = Decrypt then permission_denied ''not available for this context''
      else internal ''operation unavailable'')"
  by (simp add: sbind_def fail_step_def Let_def split: ProviderError.split)

lemma verify_work_answers:
  "answers (Rpc_VerifyAssertion m) (fst (map_step Reply_VerifyAssertion (verify_assertion_work lib m t) p))"
proof (cases "\<exists>cred asn. credential m = Some cred \<and> assertion m = Some asn")
  case True
  then obtain cred asn where a: "credential m = Some cred" "assertion m = Some asn" by blast
  let ?v = "verify lib \<lparr>exp_rp_id = rp_id m, exp_origin = expected_origin m,
      exp_challenge = expected_challenge m, stored_sign_count = sign_count cred\<rparr>
    (cose_public_key cred) (authenticator_data asn) (client_data_json asn) (signature asn)"
  show ?thesis by (cases ?v) (auto simp: verify_assertion_work_def map_step_fst a answers_def)
next
  case False
  then show ?thesis
    by (cases "credential m"; cases "assertion m")
      (simp_all add: verify_assertion_work_def map_step_fst answers_def status_fits_def)
qed

lemma decrypt_work_answers:
  assumes "lib_lawful lib" and "provider p = software_provider (lib, keys)"
  shows "answers (Rpc_DecryptField m) (fst (map_step Reply_DecryptField (decrypt_field_work m t) p))"
proof (cases "sw_decrypt_field lib keys (kek p) t (df_wrapped_dek m) (df_ciphertext m)")
  case (Ok x)
  with decrypt_field_length [OF assms(1) this] show ?thesis
    by (simp add: decrypt_field_work_def map_step_fst answers_def Let_def assms(2))
next
  case (Err e)
  then show ?thesis
    by (simp add: decrypt_field_work_def map_step_fst answers_def status_fits_def Let_def assms(2))
qed (simp add: decrypt_no_panic [OF assms(1)])

lemma index_work_answers:
  assumes "lib_lawful lib" and "provider p = software_provider (lib, keys)"
  shows "answers (Rpc_BlindIndex m) (fst (map_step Reply_BlindIndex (blind_index_work m t) p))"
proof (cases "sw_blind_index lib keys (index_key p) t (bi_input m)")
  case (Ok x)
  with blind_index_length [OF assms(1) this] show ?thesis
    by (simp add: blind_index_work_def map_step_fst answers_def Let_def assms(2))
qed (simp_all add: blind_index_work_def map_step_fst answers_def status_fits_def Let_def assms(2)
    blind_index_no_panic [OF assms(1)])

lemma row_dek_software:
  assumes "lib_lawful lib" and "provider p = software_provider (lib, keys)"
  obtains w g where "row_dek ctx t w0 p = (Ok w, p\<lparr>rng := g\<rparr>)"
      "if w0 = [] then length w = 60 else w = w0"
  | e g where "row_dek ctx t w0 p = fail_step ''encrypt_field'' ctx e (p\<lparr>rng := g\<rparr>)"
proof (cases "w0 = []")
  case True
  obtain r g where r: "sw_generate_wrapped_dek lib keys (kek p) t (rng p) = (r, g)" by fastforce
  show ?thesis
  proof (cases r)
    case (Ok w)
    with length_generated [OF assms(1)] r True that(1) show ?thesis by (simp add: row_dek_def assms(2))
  next
    case (Err e)
    with r True that(2) show ?thesis by (simp add: row_dek_def assms(2))
  next
    case Panic
    with r generate_no_panic [OF assms(1), of keys "kek p" t "rng p"] show ?thesis by simp
  qed
next
  case False
  then show ?thesis using that(1) [of w0 "rng p"] by (simp add: row_dek_def)
qed

lemma length_encrypted:
  assumes "lib_lawful lib" and "sw_encrypt_field lib keys k t w m g = (Ok c, g')"
  shows "length c = length m + 28"
  using decrypt_field_length [OF assms(1) decrypt_encrypted [OF assms]] .

lemma encrypt_work_answers:
  assumes "lib_lawful lib" and "provider p = software_provider (lib, keys)"
  shows "answers (Rpc_EncryptField m) (fst (map_step Reply_EncryptField (encrypt_field_work m t) p))"
proof (rule row_dek_software [OF assms, of "ef_context m" t "ef_wrapped_dek m"])
  fix w g
  assume dek: "row_dek (ef_context m) t (ef_wrapped_dek m) p = (Ok w, p\<lparr>rng := g\<rparr>)"
    "if ef_wrapped_dek m = [] then length w = 60 else w = ef_wrapped_dek m"
  obtain r g' where r: "sw_encrypt_field lib keys (kek p) t w (ef_plaintext m) g = (r, g')" by fastforce
  show ?thesis
  proof (cases r)
    case (Ok c)
    with length_encrypted [OF assms(1)] r dek show ?thesis
      by (simp add: encrypt_field_work_def map_step_fst answers_def Let_def assms(2))
  next
    case (Err e)
    with r dek(1) show ?thesis
      by (simp add: encrypt_field_work_def map_step_fst answers_def status_fits_def Let_def assms(2))
  next
    case Panic
    with r encrypt_no_panic [OF assms(1), of keys "kek p" t w "ef_plaintext m" g] show ?thesis by simp
  qed
next
  fix e g
  assume "row_dek (ef_context m) t (ef_wrapped_dek m) p =
    fail_step ''encrypt_field'' (ef_context m) e (p\<lparr>rng := g\<rparr>)"
  then show ?thesis
    by (simp add: encrypt_field_work_def map_step_fst answers_def status_fits_def Let_def)
qed

context gated_handler begin

lemma handler_answers:
  assumes "\<And>t l. answers r (fst (map_step f (work msg t) (p\<lparr>limiter := l\<rparr>)))"
    and "rpc_gate r = validate (context_of msg) want subject_required"
  shows "answers r (fst (map_step f (handler now msg) p))"
proof (cases rule: handler_cases [of msg now p])
  case (rejected e)
  with assms(2) gate_status [of r e] show ?thesis by (simp add: map_step_fst answers_def)
next
  case (limited c l)
  then show ?thesis by (simp add: map_step_fst answers_def limited_status)
next
  case (worked c l)
  with assms(1) [of "tenant_id c" l] show ?thesis by (simp add: map_step_fst)
qed

end

section \<open>Properties\<close>

text \<open>C8: answers are well typed. Whatever the request, the reply is of its kind: a verdict is Verified
  without a reason or Rejected with one of the ten codes and the stored counter, a first write
  returns a wrapped key of 60 bytes and a later one the key it brought, a ciphertext is 28 bytes
  longer than its plaintext in both directions, a blind index has 32 bytes. Anything else is one of
  the statuses listed for that operation; no handler panics, and no status depends on key material.\<close>

theorem answers_are_well_typed:
  assumes "lib_lawful lib" and "provider p = software_provider (lib, keys)"
  shows "case fst (serve wlib now r p) of
    Ok reply \<Rightarrow> reply_fits r reply | Err st \<Rightarrow> status_fits r st | Panic \<Rightarrow> False"
proof -
  have "answers r (fst (serve wlib now r p))"
  proof (cases r)
    case (Rpc_VerifyAssertion m)
    then show ?thesis
      by (simp add: verify_assertion.handler_answers verify_work_answers rpc_gate_def)
  next
    case (Rpc_EncryptField m)
    then show ?thesis using assms
      by (simp add: encrypt_field.handler_answers encrypt_work_answers rpc_gate_def)
  next
    case (Rpc_DecryptField m)
    then show ?thesis using assms
      by (simp add: decrypt_field.handler_answers decrypt_work_answers rpc_gate_def)
  next
    case (Rpc_BlindIndex m)
    then show ?thesis using assms
      by (simp add: blind_index.handler_answers index_work_answers rpc_gate_def)
  qed
  then show ?thesis by (simp add: answers_def)
qed

theorem answers_are_well_typed_witness:
  "\<exists>e. fst (serve sample_crates 0 (Rpc_EncryptField sample_row) sample_process) = Ok (Reply_EncryptField e) \<and>
     length (resp_ciphertext e) = 29 \<and> length (resp_wrapped_dek e) = 60"
proof -
  obtain p' where "encrypt_field_handler 0 sample_row sample_process =
      (Ok \<lparr>resp_ciphertext = sample_ciphertext, resp_wrapped_dek = sample_wrapped\<rparr>, p')"
    using sample_written by blast
  then have "fst (serve sample_crates 0 (Rpc_EncryptField sample_row) sample_process) =
      Ok (Reply_EncryptField \<lparr>resp_ciphertext = sample_ciphertext, resp_wrapped_dek = sample_wrapped\<rparr>)"
    by (simp add: map_step_fst)
  with answers_are_well_typed [OF sample_lib_lawful, of sample_process sample_keys
      "Rpc_EncryptField sample_row" sample_crates 0]
  show ?thesis by (simp add: sample_row_def)
qed

end
