(* ===== verification/Service_Threads.thy ===== *)
theory Service_Threads
  imports Service_Properties
begin

text \<open>
  Requests in parallel. The run time drives the handlers of \<open>crypto/src/service.rs\<close> on several
  threads, which share the guard: a handler runs the gate, reads the clock, takes the two sections
  of the limiter one after the other, asks the provider, and prints; between any two of these steps
  other threads may run. (What \<open>Rate_Limiter_Locks\<close> shows lets the sections be single steps; a
  line printed by \<open>println!\<close> is one step because of the lock of the stream; a provider operation is
  one step with respect to the generator.) \<open>served\<close> and \<open>asked\<close> are ghosts: the answers, in
  the order of their audit lines, and the clock values with which the requests came to the limiter.
\<close>

section \<open>Threads\<close>

datatype request_pc =
    Free
  | Received Rpc
  | Gate_Passed Rpc RequestContext
  | Clock_Known Rpc RequestContext instant
  | Ceiling_Ok Rpc RequestContext instant
  | In_Budget Rpc RequestContext instant
  | Auditing Rpc "(Reply, Status) res" string "string list"
  | Reporting "string list"

record 'g Server_State =
  proc :: "'g Process"
  wall :: instant
  threads :: "nat \<Rightarrow> request_pc"
  served :: "(Rpc \<times> (Reply, Status) res \<times> string) list"
  asked :: "(instant \<times> string) list"

definition boot :: "'g Process \<Rightarrow> instant \<Rightarrow> 'g Server_State" where
  "boot p now = \<lparr>proc = p, wall = now, threads = (\<lambda>_. Free), served = [], asked = []\<rparr>"

definition go :: "nat \<Rightarrow> request_pc \<Rightarrow> 'g Server_State \<Rightarrow> 'g Server_State" where
  "go i pc s = s\<lparr>threads := (threads s)(i := pc)\<rparr>"

text \<open>The handler's work after the checks.\<close>

primrec rpc_work :: "('j, 'v, 's) webauthn_lib \<Rightarrow> Rpc \<Rightarrow> string \<Rightarrow> (Reply, 'g) step" where
  "rpc_work lib (Rpc_VerifyAssertion m) t = map_step Reply_VerifyAssertion (verify_assertion_work lib m t)"
| "rpc_work lib (Rpc_EncryptField m) t = map_step Reply_EncryptField (encrypt_field_work m t)"
| "rpc_work lib (Rpc_DecryptField m) t = map_step Reply_DecryptField (decrypt_field_work m t)"
| "rpc_work lib (Rpc_BlindIndex m) t = map_step Reply_BlindIndex (blind_index_work m t)"

definition over_budget :: "Rpc \<Rightarrow> request_pc" where
  "over_budget r =
     Auditing r (Err (resource_exhausted ''operation budget exceeded''))
       (audit_line (rpc_op r) (rpc_context r) ''rate_limited'') []"

inductive request_step ::
    "('j, 'v, 's) webauthn_lib \<Rightarrow> 'g Server_State \<Rightarrow> 'g Server_State \<Rightarrow> bool" for lib where
  time_passes: "wall s \<le> t \<Longrightarrow> request_step lib s (s\<lparr>wall := t\<rparr>)"
| request_arrives: "threads s i = Free \<Longrightarrow> request_step lib s (go i (Received r) s)"
| gate_refuses: "threads s i = Received r \<Longrightarrow> rpc_gate r = Err e \<Longrightarrow>
     request_step lib s
       (go i (Auditing r (Err e) (audit_line (rpc_op r) (rpc_context r) ''rejected'') []) s)"
| gate_passes: "threads s i = Received r \<Longrightarrow> rpc_gate r = Ok () \<Longrightarrow> rpc_context r = Some c \<Longrightarrow>
     request_step lib s (go i (Gate_Passed r c) s)"
| clock_read: "threads s i = Gate_Passed r c \<Longrightarrow> request_step lib s (go i (Clock_Known r c (wall s)) s)"
| ceiling: "threads s i = Clock_Known r c now \<Longrightarrow>
     global_section (limiter (proc s)) now (rpc_op r) = (ok, l) \<Longrightarrow>
     request_step lib s
       (go i (if ok then Ceiling_Ok r c now else over_budget r)
         (s\<lparr>asked := asked s @ [(now, rpc_op r)], proc := (proc s)\<lparr>limiter := l\<rparr>\<rparr>))"
| budget: "threads s i = Ceiling_Ok r c now \<Longrightarrow>
     tenant_section (limiter (proc s)) now (tenant_id c) (rpc_op r) = (ok, l) \<Longrightarrow>
     request_step lib s
       (go i (if ok then In_Budget r c now else over_budget r) (s\<lparr>proc := (proc s)\<lparr>limiter := l\<rparr>\<rparr>))"
| work_done: "threads s i = In_Budget r c now \<Longrightarrow>
     rpc_work lib r (tenant_id c) (proc s) = (reply, p') \<Longrightarrow> reply \<noteq> Panic \<Longrightarrow>
     request_step lib s
       (go i (Auditing r reply (last (stdout p')) (drop (length (stderr (proc s))) (stderr p')))
         (s\<lparr>proc := (proc s)\<lparr>rng := rng p'\<rparr>\<rparr>))"
| work_panics: "threads s i = In_Budget r c now \<Longrightarrow>
     rpc_work lib r (tenant_id c) (proc s) = (Panic, p') \<Longrightarrow>
     request_step lib s (go i Free (s\<lparr>proc := (proc s)\<lparr>rng := rng p'\<rparr>\<rparr>))"
| audit_printed: "threads s i = Auditing r reply line errs \<Longrightarrow>
     request_step lib s
       (go i (Reporting errs)
         (s\<lparr>proc := (proc s)\<lparr>stdout := stdout (proc s) @ [line]\<rparr>, served := served s @ [(r, reply, line)]\<rparr>))"
| error_printed: "threads s i = Reporting (e # errs) \<Longrightarrow>
     request_step lib s (go i (Reporting errs) (s\<lparr>proc := eprintln e (proc s)\<rparr>))"
| answered_step: "threads s i = Reporting [] \<Longrightarrow> request_step lib s (go i Free s)"

inductive requests_reach ::
    "('j, 'v, 's) webauthn_lib \<Rightarrow> 'g Server_State \<Rightarrow> 'g Server_State \<Rightarrow> bool" for lib s0 where
  requests_start: "requests_reach lib s0 s0"
| requests_next: "requests_reach lib s0 s \<Longrightarrow> request_step lib s s' \<Longrightarrow> requests_reach lib s0 s'"

lemma go_sel [simp]:
  "proc (go i pc s) = proc s" "wall (go i pc s) = wall s" "served (go i pc s) = served s" "asked (go i pc s) = asked s"
  "threads (go i pc s) = (threads s)(i := pc)"
  by (simp_all add: go_def)

section \<open>The work of a handler\<close>

text \<open>It neither reads nor writes the limiter.\<close>

definition limiter_free :: "('a, 'g) step \<Rightarrow> bool" where
  "limiter_free m \<longleftrightarrow>
     (\<forall>p l. m (p\<lparr>limiter := l\<rparr>) = (fst (m p), (snd (m p))\<lparr>limiter := l\<rparr>))"

lemma limiter_update_commutes:
  "audit op ctx out (p\<lparr>limiter := l\<rparr>) = (audit op ctx out p)\<lparr>limiter := l\<rparr>"
  "eprintln e (p\<lparr>limiter := l\<rparr>) = (eprintln e p)\<lparr>limiter := l\<rparr>"
  "p\<lparr>limiter := l, rng := g\<rparr> = p\<lparr>rng := g\<rparr>\<lparr>limiter := l\<rparr>"
  by (simp_all add: audit_def eprintln_def)

lemma fail_step_limiter:
  "fail_step op ctx e (p\<lparr>limiter := l\<rparr>) =
     (fst (fail_step op ctx e p), (snd (fail_step op ctx e p))\<lparr>limiter := l\<rparr>)"
  by (simp add: fail_step_def Let_def limiter_update_commutes split: ProviderError.split)

lemma limiter_free_map: "limiter_free m \<Longrightarrow> limiter_free (map_step f m)"
  by (simp add: limiter_free_def prod_eq_iff map_step_fst)

lemma verify_limiter_free: "limiter_free (verify_assertion_work lib m t)"
  by (simp add: limiter_free_def verify_assertion_work_def Let_def limiter_update_commutes
      split: option.split res.split)

lemma decrypt_limiter_free: "limiter_free (decrypt_field_work m t)"
  by (simp add: limiter_free_def decrypt_field_work_def Let_def limiter_update_commutes
      fail_step_limiter split: res.split)

lemma index_limiter_free: "limiter_free (blind_index_work m t)"
  by (simp add: limiter_free_def blind_index_work_def Let_def limiter_update_commutes split: res.split)

lemma row_dek_limiter:
  "row_dek ctx t w (p\<lparr>limiter := l\<rparr>) = (fst (row_dek ctx t w p), (snd (row_dek ctx t w p))\<lparr>limiter := l\<rparr>)"
  by (simp add: row_dek_def limiter_update_commutes(3) fail_step_limiter split: prod.split res.split)

lemma encrypt_limiter_free: "limiter_free (encrypt_field_work m t)"
  by (simp add: limiter_free_def encrypt_field_work_def Let_def sbind_def row_dek_limiter
      limiter_update_commutes fail_step_limiter split_beta split: res.split)

lemma work_limiter_free: "limiter_free (rpc_work lib r t)"
  by (cases r) (simp_all add: limiter_free_map verify_limiter_free decrypt_limiter_free
      index_limiter_free encrypt_limiter_free)

text \<open>It prints one audit line, and appends to standard error.\<close>

lemma fail_step_stderr: "\<exists>errs. stderr (snd (fail_step op ctx e p)) = stderr p @ errs"
  by (simp add: fail_step_def Let_def split: ProviderError.split)

lemma work_audits: "fst (rpc_work lib r t p) \<noteq> Panic \<Longrightarrow>
    \<exists>outcome. stdout (snd (rpc_work lib r t p)) = stdout p @ [audit_line (rpc_op r) (rpc_context r) outcome]"
  by (cases r) (simp_all add: verify_assertion.work_audits encrypt_field.work_audits
      decrypt_field.work_audits blind_index.work_audits)

lemma work_stderr: "\<exists>errs. stderr (snd (rpc_work lib r t p)) = stderr p @ errs"
proof (cases r)
  case (Rpc_VerifyAssertion m)
  then show ?thesis using verify_work_shape [of lib m t p] by auto
next
  case (Rpc_EncryptField m)
  then show ?thesis
  proof (cases rule: encrypt_work_cases [of m t p])
    case (failed e g)
    with Rpc_EncryptField fail_step_stderr [of "''encrypt_field''" "ef_context m" e "p\<lparr>rng := g\<rparr>"]
    show ?thesis by simp
  qed simp_all
next
  case (Rpc_DecryptField m)
  then show ?thesis using fail_step_stderr
    by (auto simp: decrypt_field_work_def Let_def split: res.split)
next
  case (Rpc_BlindIndex m)
  then show ?thesis by (auto simp: blind_index_work_def Let_def split: res.split)
qed

text \<open>A sequential request that the gate and the limiter let through is its work.\<close>

lemma map_step_same: "m p = n q \<Longrightarrow> map_step f m p = map_step f n q"
  by (simp add: map_step_def sbind_def)

lemma serve_after_checks:
  assumes "rpc_gate r = Ok ()" and "rpc_context r = Some c"
    and "allow (limiter p) now (tenant_id c) (rpc_op r) = (True, l)"
  shows "serve lib now r p = rpc_work lib r (tenant_id c) (p\<lparr>limiter := l\<rparr>)"
  using assms
  by (cases r)
    (auto simp: rpc_gate_def intro!: map_step_same verify_assertion.after_gate [where ok = True, simplified]
      encrypt_field.after_gate [where ok = True, simplified] decrypt_field.after_gate [where ok = True, simplified]
      blind_index.after_gate [where ok = True, simplified])

section \<open>The limiter seen by one request\<close>

text \<open>What a request sees of the limiter, the ceilings at one time and the buckets at a later one, is
  a limiter too.\<close>

lemma tenant_section_cong:
  assumes "buckets l = buckets l'" and "same_config l l'"
  shows "fst (tenant_section l now t op) = fst (tenant_section l' now t op)"
proof -
  have "evict l now bs = evict l' now bs" for bs
    using assms(2) by (simp add: evict_def lru_keys_def same_config_def Let_def)
  with assms show ?thesis by (simp add: tenant_section_eq(1) [OF refl] same_config_def)
qed

lemma global_section_cong:
  assumes "global l = global l'" and "same_config l l'"
  shows "fst (global_section l now op) = fst (global_section l' now op)"
  using assms by (simp add: global_section_eq(1) global_bucket_def same_config_def)

lemma same_config_sym: "same_config l l' \<Longrightarrow> same_config l' l"
  by (simp add: same_config_def)

lemma allow_combined:
  assumes "same_config l0 l" and "same_config l0 l'" and "fst (global_section l now op)"
  shows "fst (allow (l'\<lparr>global := global l\<rparr>) now t op) = fst (tenant_section l' now t op)"
    and "same_config l0 (l'\<lparr>global := global l\<rparr>)"
proof -
  let ?l = "l'\<lparr>global := global l\<rparr>"
  show cfg: "same_config l0 ?l" using assms(2) by (simp add: same_config_def)
  have "same_config l ?l" using same_config_trans [OF same_config_sym [OF assms(1)] cfg] .
  then have "fst (global_section ?l now op)"
    using global_section_cong [of l ?l now op] assms(3) by simp
  moreover have "fst (tenant_section (snd (global_section ?l now op)) now t op) = fst (tenant_section l' now t op)"
  proof (rule tenant_section_cong)
    show "buckets (snd (global_section ?l now op)) = buckets l'" by (simp add: global_section_eq(3))
    show "same_config (snd (global_section ?l now op)) l'"
      using same_config_trans [OF same_config_sym [OF same_config_sections(1)], of l0 ?l]
        same_config_sym [OF same_config_trans [OF same_config_sym [OF assms(2)] cfg]]
        same_config_trans same_config_sym same_config_sections(1) by metis
  qed
  ultimately show "fst (allow ?l now t op) = fst (tenant_section l' now t op)"
    by (simp add: allow_def split_beta)
qed

section \<open>Every interleaving\<close>

text \<open>The same guard, with its limiter in any state that calls can bring it to.\<close>

definition like_guard :: "'g Process \<Rightarrow> 'g Process \<Rightarrow> bool" where
  "like_guard p q \<longleftrightarrow> provider q = provider p \<and> kek q = kek p \<and> index_key q = index_key p \<and>
     same_config (limiter p) (limiter q)"

definition sequential_answer ::
    "('j, 'v, 's) webauthn_lib \<Rightarrow> 'g Process \<Rightarrow> instant \<Rightarrow> Rpc \<Rightarrow> (Reply, Status) res \<Rightarrow> string \<Rightarrow>
       string list \<Rightarrow> bool" where
  "sequential_answer lib p0 t r reply line errs \<longleftrightarrow>
     (\<exists>now q q'. now \<le> t \<and> like_guard p0 q \<and> serve lib now r q = (reply, q') \<and>
        stdout q' = stdout q @ [line] \<and> stderr q' = stderr q @ errs)"

primrec pc_ok :: "('j, 'v, 's) webauthn_lib \<Rightarrow> 'g Process \<Rightarrow> instant \<Rightarrow> request_pc \<Rightarrow> bool" where
  "pc_ok lib p0 t Free = True"
| "pc_ok lib p0 t (Received r) = True"
| "pc_ok lib p0 t (Gate_Passed r c) = (rpc_gate r = Ok () \<and> rpc_context r = Some c)"
| "pc_ok lib p0 t (Clock_Known r c now) = (rpc_gate r = Ok () \<and> rpc_context r = Some c \<and> now \<le> t)"
| "pc_ok lib p0 t (Ceiling_Ok r c now) =
     (rpc_gate r = Ok () \<and> rpc_context r = Some c \<and> now \<le> t \<and>
      (\<exists>l. same_config (limiter p0) l \<and> fst (global_section l now (rpc_op r))))"
| "pc_ok lib p0 t (In_Budget r c now) =
     (rpc_gate r = Ok () \<and> rpc_context r = Some c \<and> now \<le> t \<and>
      (\<exists>l. same_config (limiter p0) l \<and> fst (allow l now (tenant_id c) (rpc_op r))))"
| "pc_ok lib p0 t (Auditing r reply line errs) = sequential_answer lib p0 t r reply line errs"
| "pc_ok lib p0 t (Reporting errs) = True"

definition requests_inv ::
    "('j, 'v, 's) webauthn_lib \<Rightarrow> 'g Process \<Rightarrow> 'g Server_State \<Rightarrow> bool" where
  "requests_inv lib p0 s \<longleftrightarrow>
     like_guard p0 (proc s) \<and> (\<forall>i. pc_ok lib p0 (wall s) (threads s i)) \<and>
     (\<forall>(r, reply, line) \<in> set (served s). \<exists>errs. sequential_answer lib p0 (wall s) r reply line errs) \<and>
     stdout (proc s) = stdout p0 @ map (\<lambda>(r, reply, line). line) (served s)"

lemma sequential_answerI:
  "now \<le> t \<Longrightarrow> like_guard p0 q \<Longrightarrow> serve lib now r q = (reply, q') \<Longrightarrow> stdout q' = stdout q @ [line] \<Longrightarrow>
     stderr q' = stderr q @ errs \<Longrightarrow> sequential_answer lib p0 t r reply line errs"
  unfolding sequential_answer_def by blast

lemma sequential_answer_later:
  "sequential_answer lib p0 t r reply line errs \<Longrightarrow> t \<le> t' \<Longrightarrow> sequential_answer lib p0 t' r reply line errs"
  unfolding sequential_answer_def by (meson order_trans)

lemma pc_ok_later: "pc_ok lib p0 t pc \<Longrightarrow> t \<le> t' \<Longrightarrow> pc_ok lib p0 t' pc"
  by (cases pc) (auto intro: sequential_answer_later order_trans)

lemma like_guard_upd [simp]:
  "like_guard p (q\<lparr>rng := g\<rparr>) = like_guard p q" "like_guard p (q\<lparr>stdout := out\<rparr>) = like_guard p q"
  "like_guard p (eprintln e q) = like_guard p q"
  "same_config (limiter p) l \<Longrightarrow> like_guard p q \<Longrightarrow> like_guard p (q\<lparr>limiter := l\<rparr>)"
  by (simp_all add: like_guard_def)

text \<open>The three ways in which a request gets its answer.\<close>

lemma gate_answer:
  assumes "like_guard p0 p" and "rpc_gate r = Err e"
  shows "sequential_answer lib p0 t r (Err e) (audit_line (rpc_op r) (rpc_context r) ''rejected'') []"
  by (rule sequential_answerI [OF _ assms(1) serve_refused [OF assms(2)], of 0]) simp_all

lemma limited_answer:
  assumes "like_guard p0 p" and "rpc_gate r = Ok ()" and "rpc_context r = Some c" and "now \<le> t"
    and "same_config (limiter p0) l" and "\<not> fst (allow l now (tenant_id c) (rpc_op r))"
  shows "pc_ok lib p0 t (over_budget r)"
proof -
  obtain l' where l': "allow l now (tenant_id c) (rpc_op r) = (False, l')"
    using assms(6) by (metis prod.collapse)
  then have serve: "serve lib now r (p\<lparr>limiter := l\<rparr>) =
      (Err (resource_exhausted ''operation budget exceeded''),
       audit (rpc_op r) (rpc_context r) ''rate_limited'' (p\<lparr>limiter := l\<rparr>\<lparr>limiter := l'\<rparr>))"
    by (intro serve_limited [OF assms(2,3)]) simp
  have "like_guard p0 (p\<lparr>limiter := l\<rparr>)" using assms(1,5) by simp
  then show ?thesis
    unfolding over_budget_def pc_ok.simps
    by (rule sequential_answerI [OF assms(4) _ serve]) simp_all
qed

lemma work_answer:
  assumes "like_guard p0 p" and "rpc_gate r = Ok ()" and "rpc_context r = Some c" and "now \<le> t"
    and "same_config (limiter p0) l" and "fst (allow l now (tenant_id c) (rpc_op r))"
    and "rpc_work lib r (tenant_id c) p = (reply, p')" and "reply \<noteq> Panic"
  shows "sequential_answer lib p0 t r reply (last (stdout p')) (drop (length (stderr p)) (stderr p'))"
proof -
  let ?q = "p\<lparr>limiter := l\<rparr>"
  obtain l' where l': "allow (limiter ?q) now (tenant_id c) (rpc_op r) = (True, l')"
    using assms(6) by (simp add: prod_eq_iff)
  have "serve lib now r ?q = rpc_work lib r (tenant_id c) (p\<lparr>limiter := l'\<rparr>)"
    using serve_after_checks [OF assms(2,3) l'] by simp
  also have "\<dots> = (reply, p'\<lparr>limiter := l'\<rparr>)"
    using spec [OF spec [OF work_limiter_free [of lib r "tenant_id c", unfolded limiter_free_def], of p], of l']
    by (simp only: assms(7) fst_conv snd_conv)
  finally have s: "serve lib now r ?q = (reply, p'\<lparr>limiter := l'\<rparr>)" .
  obtain line errs where "stdout p' = stdout p @ [line]" "stderr p' = stderr p @ errs"
    using work_audits [of lib r "tenant_id c" p] work_stderr [of lib r "tenant_id c" p] assms(7,8) by auto
  moreover have "like_guard p0 ?q" using assms(1,5) by simp
  ultimately show ?thesis by (intro sequential_answerI [OF assms(4) _ s]) simp_all
qed

lemma requests_inv_update:
  assumes "requests_inv lib p0 s" and "like_guard p0 p'" and "stdout p' = stdout (proc s)"
    and "pc_ok lib p0 (wall s) pc"
  shows "requests_inv lib p0 (go i pc (s\<lparr>proc := p'\<rparr>))"
  using assms by (simp add: requests_inv_def)

lemma requests_inv_asked [simp]: "requests_inv lib p0 (s\<lparr>asked := a\<rparr>) = requests_inv lib p0 s"
  by (simp add: requests_inv_def)

lemma requests_inv_step:
  assumes "request_step lib s s'" and "requests_inv lib p0 s"
  shows "requests_inv lib p0 s'"
proof -
  have G: "like_guard p0 (proc s)" and P: "\<And>i. pc_ok lib p0 (wall s) (threads s i)"
    and S: "\<forall>(r, reply, line) \<in> set (served s). \<exists>errs. sequential_answer lib p0 (wall s) r reply line errs"
    and O: "stdout (proc s) = stdout p0 @ map (\<lambda>(r, reply, line). line) (served s)"
    and C: "same_config (limiter p0) (limiter (proc s))"
    using assms(2) by (simp_all add: requests_inv_def like_guard_def)
  have G': "like_guard p0 ((proc s)\<lparr>limiter := l\<rparr>)" if "same_config (limiter (proc s)) l" for l
    using G same_config_trans [OF C that] by simp
  note upd = requests_inv_update [OF assms(2)]
  have go: "requests_inv lib p0 (go i pc s)" if "pc_ok lib p0 (wall s) pc" for i pc
    using upd [OF G refl that, of i] by simp
  from assms(1) show ?thesis
  proof cases
    case (time_passes t)
    have "pc_ok lib p0 t (threads s i)" for i by (rule pc_ok_later [OF P time_passes(2)])
    moreover have "\<forall>(r, reply, line) \<in> set (served s). \<exists>errs. sequential_answer lib p0 t r reply line errs"
      using S sequential_answer_later [OF _ time_passes(2)] by fast
    ultimately show ?thesis using G O by (simp add: time_passes(1) requests_inv_def)
  next
    case (ceiling i r c now ok l)
    then have r: "rpc_gate r = Ok ()" "rpc_context r = Some c" "now \<le> wall s" using P [of i] by simp_all
    have l: "same_config (limiter (proc s)) l"
      using same_config_sections(1) [of "limiter (proc s)" now "rpc_op r"] ceiling(3) by simp
    have "pc_ok lib p0 (wall s) (if ok then Ceiling_Ok r c now else over_budget r)"
    proof (cases ok)
      case True
      then show ?thesis using r ceiling(3) C by (auto intro!: exI [of _ "limiter (proc s)"])
    next
      case False
      then have "\<not> fst (allow (limiter (proc s)) now (tenant_id c) (rpc_op r))"
        using ceiling(3) by (simp add: allow_def)
      with False limited_answer [OF G r C] show ?thesis by simp
    qed
    then show ?thesis
      unfolding ceiling(1) using assms(2) G' [OF l] by (intro requests_inv_update) simp_all
  next
    case (budget i r c now ok l)
    then have r: "rpc_gate r = Ok ()" "rpc_context r = Some c" "now \<le> wall s" using P [of i] by simp_all
    obtain lg where lg: "same_config (limiter p0) lg" "fst (global_section lg now (rpc_op r))"
      using P [of i] budget(2) by auto
    note both = allow_combined(1) [OF lg(1) C lg(2), of "tenant_id c"] allow_combined(2) [OF lg(1) C lg(2)]
    have l: "same_config (limiter (proc s)) l"
      using same_config_sections(2) [of "limiter (proc s)" now "tenant_id c" "rpc_op r"] budget(3) by simp
    have "pc_ok lib p0 (wall s) (if ok then In_Budget r c now else over_budget r)"
    proof (cases ok)
      case True
      then show ?thesis using r budget(3) both by auto
    next
      case False
      with limited_answer [OF G r both(2)] both(1) budget(3) show ?thesis by simp
    qed
    then show ?thesis unfolding budget(1) by (intro upd G' l) simp_all
  next
    case (work_done i r c now reply p')
    then obtain l where "rpc_gate r = Ok ()" "rpc_context r = Some c" "now \<le> wall s"
      "same_config (limiter p0) l" "fst (allow l now (tenant_id c) (rpc_op r))"
      using P [of i] by auto
    from work_answer [OF G this work_done(3,4)] show ?thesis
      unfolding work_done(1) using G by (intro upd) simp_all
  next
    case (audit_printed i r reply line errs)
    then have "sequential_answer lib p0 (wall s) r reply line errs" using P [of i] by simp
    with audit_printed(1) G P S O show ?thesis by (auto simp: requests_inv_def)
  next
    case (gate_refuses i r e)
    show ?thesis
      unfolding gate_refuses(1) by (rule go) (simp add: gate_answer [OF G gate_refuses(3)])
  next
    case (error_printed i e errs)
    then show ?thesis using G by (simp add: upd)
  next
    case (clock_read i r c)
    then show ?thesis using P [of i] by (simp add: go)
  next
    case (work_panics i r c now p')
    then show ?thesis using G by (simp add: upd)
  qed (simp_all add: go)
qed

lemma requests_inv_reach:
  assumes "requests_reach lib (boot p0 t0) s"
  shows "requests_inv lib p0 s"
  using assms
proof (induction rule: requests_reach.induct)
  case requests_start
  show ?case by (simp add: requests_inv_def boot_def like_guard_def)
next
  case (requests_next s s')
  show ?case by (rule requests_inv_step [OF requests_next.hyps(2) requests_next.IH])
qed

section \<open>A request that is not interrupted\<close>

lemma reach_step: "request_step lib s s' \<Longrightarrow> requests_reach lib s s'"
  by (rule requests_next [OF requests_start])

lemma reach_trans: "requests_reach lib b c \<Longrightarrow> requests_reach lib a b \<Longrightarrow> requests_reach lib a c"
  by (induction rule: requests_reach.induct) (auto intro: requests_next)

definition finish ::
    "nat \<Rightarrow> 'g Process \<Rightarrow> (Rpc \<times> (Reply, Status) res \<times> string) list \<Rightarrow> (instant \<times> string) list \<Rightarrow>
       'g Server_State \<Rightarrow> 'g Server_State" where
  "finish i p new a s =
     s\<lparr>proc := p, threads := (threads s)(i := Free), served := served s @ new, asked := asked s @ a\<rparr>"

lemma errors_reported:
  assumes "threads s i = Reporting errs"
  shows "requests_reach lib s (finish i ((proc s)\<lparr>stderr := stderr (proc s) @ errs\<rparr>) [] [] s)"
  using assms
proof (induction errs arbitrary: s)
  case Nil
  from reach_step [OF answered_step [OF Nil]] show ?case by (simp add: finish_def go_def)
next
  case (Cons e errs)
  let ?s = "go i (Reporting errs) (s\<lparr>proc := eprintln e (proc s)\<rparr>)"
  have a: "requests_reach lib s ?s" by (rule reach_step [OF error_printed [OF Cons.prems]])
  have b: "requests_reach lib ?s (finish i ((proc ?s)\<lparr>stderr := stderr (proc ?s) @ errs\<rparr>) [] [] ?s)"
    by (rule Cons.IH) simp
  have "finish i ((proc ?s)\<lparr>stderr := stderr (proc ?s) @ errs\<rparr>) [] [] ?s =
      finish i ((proc s)\<lparr>stderr := stderr (proc s) @ e # errs\<rparr>) [] [] s"
    by (simp add: finish_def go_def eprintln_def)
  then show ?case using reach_trans [OF b a] by (simp only:)
qed

lemma answer_reported:
  assumes "threads s i = Auditing r reply line errs"
  shows "requests_reach lib s
    (finish i ((proc s)\<lparr>stdout := stdout (proc s) @ [line], stderr := stderr (proc s) @ errs\<rparr>) [(r, reply, line)] [] s)"
proof -
  let ?s = "go i (Reporting errs)
    (s\<lparr>proc := (proc s)\<lparr>stdout := stdout (proc s) @ [line]\<rparr>, served := served s @ [(r, reply, line)]\<rparr>)"
  have a: "requests_reach lib s ?s" by (rule reach_step [OF audit_printed [OF assms]])
  have b: "requests_reach lib ?s (finish i ((proc ?s)\<lparr>stderr := stderr (proc ?s) @ errs\<rparr>) [] [] ?s)"
    by (rule errors_reported) simp
  have "finish i ((proc ?s)\<lparr>stderr := stderr (proc ?s) @ errs\<rparr>) [] [] ?s =
    finish i ((proc s)\<lparr>stdout := stdout (proc s) @ [line], stderr := stderr (proc s) @ errs\<rparr>) [(r, reply, line)] [] s"
    by (simp add: finish_def go_def)
  then show ?thesis using reach_trans [OF b a] by (simp only:)
qed

lemma over_budget_reported:
  assumes "threads s i = over_budget r"
  shows "requests_reach lib s (finish i (audit (rpc_op r) (rpc_context r) ''rate_limited'' (proc s))
    [(r, Err (resource_exhausted ''operation budget exceeded''),
      audit_line (rpc_op r) (rpc_context r) ''rate_limited'')] [] s)"
  using answer_reported [OF assms [unfolded over_budget_def], of lib] by (simp add: audit_def)

lemma work_reported:
  assumes "threads s i = In_Budget r c now" and "rpc_work lib r (tenant_id c) (proc s) = (reply, p')"
    and "reply \<noteq> Panic"
  obtains line where "requests_reach lib s (finish i p' [(r, reply, line)] [] s)"
proof -
  let ?p = "proc s"
  obtain line errs where w: "stdout p' = stdout ?p @ [line]" "stderr p' = stderr ?p @ errs"
    using work_audits [of lib r "tenant_id c" ?p] work_stderr [of lib r "tenant_id c" ?p] assms(2,3) by auto
  let ?s = "go i (Auditing r reply line errs) (s\<lparr>proc := ?p\<lparr>rng := rng p'\<rparr>\<rparr>)"
  have a: "requests_reach lib s ?s"
    using reach_step [OF work_done [OF assms]] w by simp
  have b: "requests_reach lib ?s (finish i ((proc ?s)\<lparr>stdout := stdout (proc ?s) @ [line],
      stderr := stderr (proc ?s) @ errs\<rparr>) [(r, reply, line)] [] ?s)"
    by (rule answer_reported) simp
  have "same_guard ?p p'"
    using assms(2) verify_assertion.work_frame encrypt_field.work_frame decrypt_field.work_frame
      blind_index.work_frame by (cases r) (auto dest!: arg_cong [where f = snd])
  then have "(proc ?s)\<lparr>stdout := stdout (proc ?s) @ [line], stderr := stderr (proc ?s) @ errs\<rparr> = p'"
    using w by (simp add: same_guard_def)
  then have "finish i ((proc ?s)\<lparr>stdout := stdout (proc ?s) @ [line], stderr := stderr (proc ?s) @ errs\<rparr>)
      [(r, reply, line)] [] ?s = finish i p' [(r, reply, line)] [] s"
    by (simp add: finish_def go_def)
  with reach_trans [OF b a] show ?thesis by (intro that [of line]) (simp only:)
qed

lemma checks_done:
  assumes "threads s i = Free" and "rpc_gate r = Ok ()" and "rpc_context r = Some c"
    and "allow (limiter (proc s)) (wall s) (tenant_id c) (rpc_op r) = (ok, l)"
  shows "requests_reach lib s (go i (if ok then In_Budget r c (wall s) else over_budget r)
    (s\<lparr>asked := asked s @ [(wall s, rpc_op r)], proc := (proc s)\<lparr>limiter := l\<rparr>\<rparr>))"
proof -
  let ?known = "go i (Clock_Known r c (wall s)) s"
  have "requests_reach lib s (go i (Received r) s)" by (rule reach_step [OF request_arrives [OF assms(1)]])
  moreover have "request_step lib (go i (Received r) s) (go i (Gate_Passed r c) s)"
    using gate_passes [of "go i (Received r) s" i r c lib] assms(2,3) by (simp add: go_def)
  moreover have "request_step lib (go i (Gate_Passed r c) s) ?known"
    using clock_read [of "go i (Gate_Passed r c) s" i r c lib] by (simp add: go_def)
  ultimately have known: "requests_reach lib s ?known" by (blast intro: requests_next)
  obtain ok1 l1 where g: "global_section (limiter (proc s)) (wall s) (rpc_op r) = (ok1, l1)" by fastforce
  let ?s1 = "go i (if ok1 then Ceiling_Ok r c (wall s) else over_budget r)
    (s\<lparr>asked := asked s @ [(wall s, rpc_op r)], proc := (proc s)\<lparr>limiter := l1\<rparr>\<rparr>)"
  have s1: "requests_reach lib s ?s1"
    using requests_next [OF known ceiling [of ?known i r c "wall s" ok1 l1]] g by (simp add: go_def)
  show ?thesis
  proof (cases ok1)
    case False
    with g assms(4) have "ok = False" "l = l1" by (simp_all add: allow_def)
    with s1 False show ?thesis by simp
  next
    case True
    with g assms(4) have t: "tenant_section l1 (wall s) (tenant_id c) (rpc_op r) = (ok, l)"
      by (simp add: allow_def)
    have "request_step lib ?s1 (go i (if ok then In_Budget r c (wall s) else over_budget r)
        (?s1\<lparr>proc := (proc ?s1)\<lparr>limiter := l\<rparr>\<rparr>))"
      by (rule budget) (use True t in simp_all)
    with s1 show ?thesis by (auto simp: go_def intro: requests_next)
  qed
qed

lemma finish_after [simp]:
  "finish i p new a (go i pc t) = finish i p new a t"
  "finish i p new [] (s\<lparr>asked := asked s @ a, proc := q\<rparr>) = finish i p new a s"
  by (simp_all add: finish_def go_def)

text \<open>The request as a whole; \<open>asks\<close> is what the limiter sees of it.\<close>

definition asks :: "instant \<Rightarrow> Rpc \<Rightarrow> (instant \<times> string) list" where
  "asks now r = (case rpc_gate r of Ok _ \<Rightarrow> [(now, rpc_op r)] | _ \<Rightarrow> [])"

lemma one_request:
  assumes "threads s i = Free" and "serve lib (wall s) r (proc s) = (reply, p')" and "reply \<noteq> Panic"
  obtains line where "requests_reach lib s (finish i p' [(r, reply, line)] (asks (wall s) r) s)"
proof (cases "rpc_gate r")
  case (Err e)
  let ?line = "audit_line (rpc_op r) (rpc_context r) ''rejected''"
  let ?s = "go i (Auditing r (Err e) ?line []) s"
  have a: "reply = Err e" "p' = audit (rpc_op r) (rpc_context r) ''rejected'' (proc s)"
    using serve_refused [OF Err, of lib "wall s" "proc s"] assms(2) by simp_all
  have "request_step lib (go i (Received r) s) ?s"
    using gate_refuses [of "go i (Received r) s" i r e lib] Err by (simp add: go_def)
  then have "requests_reach lib s ?s"
    by (rule requests_next [OF reach_step [OF request_arrives [OF assms(1)]]])
  from reach_trans [OF answer_reported this, of i r "Err e" ?line "[]"] a that [of ?line] Err
  show ?thesis by (simp add: audit_def asks_def)
next
  case (Ok u)
  then obtain c where c: "rpc_context r = Some c" unfolding rpc_gate_def by (rule validate_OkD)
  have gate: "rpc_gate r = Ok ()" using Ok by simp
  then have asks: "asks (wall s) r = [(wall s, rpc_op r)]" by (simp add: asks_def)
  obtain ok l where al: "allow (limiter (proc s)) (wall s) (tenant_id c) (rpc_op r) = (ok, l)" by fastforce
  note checks = checks_done [OF assms(1) gate c al, of lib]
  let ?t = "s\<lparr>asked := asked s @ [(wall s, rpc_op r)], proc := (proc s)\<lparr>limiter := l\<rparr>\<rparr>"
  show ?thesis
  proof (cases ok)
    case True
    then have "rpc_work lib r (tenant_id c) ((proc s)\<lparr>limiter := l\<rparr>) = (reply, p')"
      using serve_after_checks [OF gate c, of "proc s" "wall s" l lib] al assms(2) by simp
    then obtain line where "requests_reach lib (go i (In_Budget r c (wall s)) ?t)
        (finish i p' [(r, reply, line)] [] (go i (In_Budget r c (wall s)) ?t))"
      using work_reported [OF _ _ assms(3), of "go i (In_Budget r c (wall s)) ?t" i r c "wall s" lib p'] by auto
    from reach_trans [OF this, of s] checks True
    have "requests_reach lib s (finish i p' [(r, reply, line)] (asks (wall s) r) s)"
      by (simp add: asks)
    then show ?thesis by (rule that)
  next
    case False
    let ?s = "go i (over_budget r) ?t"
    have "reply = Err (resource_exhausted ''operation budget exceeded'')"
      "p' = audit (rpc_op r) (rpc_context r) ''rate_limited'' (proc ?s)"
      using serve_limited [OF gate c, of "proc s" "wall s" l lib] al False assms(2) by simp_all
    with reach_trans [OF over_budget_reported [of ?s i r lib], of s] checks False
    have "requests_reach lib s
        (finish i p' [(r, reply, audit_line (rpc_op r) (rpc_context r) ''rate_limited'')] (asks (wall s) r) s)"
      by (simp add: asks)
    then show ?thesis by (rule that)
  qed
qed (simp add: rpc_gate_def)

section \<open>Properties\<close>

text \<open>C12: requests in parallel are answered like requests one by one. Whatever the interleaving of the
  gate, the clock, the two sections of the limiter, the provider and the prints of any number of
  threads, standard output is the audit lines of the answered requests in their order, one each,
  and every answer with its line is what the sequential handler gives and prints for that request
  in some state of the same guard: only the limiter may be in another state.\<close>

theorem parallel_requests_are_sequential_ones:
  assumes "requests_reach lib (boot p0 t0) s"
  shows "stdout (proc s) = stdout p0 @ map (\<lambda>(r, reply, line). line) (served s) \<and>
    (\<forall>(r, reply, line) \<in> set (served s). \<exists>now q q'.
       now \<le> wall s \<and> provider q = provider p0 \<and> kek q = kek p0 \<and> index_key q = index_key p0 \<and>
       same_config (limiter p0) (limiter q) \<and>
       serve lib now r q = (reply, q') \<and> stdout q' = stdout q @ [line])"
proof -
  have inv: "requests_inv lib p0 s" by (rule requests_inv_reach [OF assms])
  have "\<exists>now q q'. now \<le> wall s \<and> provider q = provider p0 \<and> kek q = kek p0 \<and> index_key q = index_key p0 \<and>
      same_config (limiter p0) (limiter q) \<and>
      serve lib now r q = (reply, q') \<and> stdout q' = stdout q @ [line]"
    if "(r, reply, line) \<in> set (served s)" for r reply line
  proof -
    obtain errs where "sequential_answer lib p0 (wall s) r reply line errs"
      using inv \<open>(r, reply, line) \<in> set (served s)\<close> unfolding requests_inv_def by fast
    then show ?thesis unfolding sequential_answer_def like_guard_def by blast
  qed
  with inv show ?thesis by (auto simp: requests_inv_def)
qed

text \<open>Not interrupted, a request is the sequential one.\<close>

lemma two_requests:
  assumes "serve lib now r p = (reply, p1)" and "serve lib now r' p1 = (reply', p2)"
    and "reply \<noteq> Panic" and "reply' \<noteq> Panic"
  obtains s line line' where "requests_reach lib (boot p now) s"
    "served s = [(r, reply, line), (r', reply', line')]" "proc s = p2"
    "asked s = asks now r @ asks now r'" "wall s = now"
proof -
  let ?s = "boot p now"
  obtain line where a: "requests_reach lib ?s (finish 0 p1 [(r, reply, line)] (asks now r) ?s)"
    using one_request [of ?s 0 lib r reply p1] assms(1,3) by (auto simp: boot_def)
  let ?t = "finish 0 p1 [(r, reply, line)] (asks now r) ?s"
  obtain line' where b: "requests_reach lib ?t (finish 1 p2 [(r', reply', line')] (asks now r') ?t)"
    using one_request [of ?t 1 lib r' reply' p2] assms(2,4) by (auto simp: boot_def finish_def)
  from reach_trans [OF b a] show ?thesis
    by (rule that) (simp_all add: finish_def boot_def)
qed

lemma served_sequentially:
  assumes "requests_reach lib (boot p0 t0) s" and "(r, reply, line) \<in> set (served s)"
  obtains now q q' where "provider q = provider p0" "kek q = kek p0" "serve lib now r q = (reply, q')"
proof -
  obtain errs where "sequential_answer lib p0 (wall s) r reply line errs"
    using requests_inv_reach [OF assms(1)] assms(2) unfolding requests_inv_def by fast
  then show ?thesis using that unfolding sequential_answer_def like_guard_def by blast
qed

lemma encrypt_served:
  assumes "serve lib now (Rpc_EncryptField m) q = (Ok (Reply_EncryptField resp), q')"
  shows "encrypt_field_handler now m q = (Ok resp, q')"
  using assms by (cases "encrypt_field_handler now m q"; cases "fst (encrypt_field_handler now m q)")
    (auto simp: map_step_def return_def)

text \<open>C9: rows are safe under concurrency. Take any interleaving of any requests, a row that was
  encrypted in it, and an answer to a decryption with that row's wrapped key, in whatever order the
  two ran. For another tenant the answer is an error, unless the AEAD accepts the wrapped key
  under both tenants. For the row's tenant and its ciphertext the answer is the plaintext, the
  refusal of the gate, or the one of the limiter.\<close>

theorem rows_are_safe_in_parallel:
  assumes "lib_lawful lib" and "provider p0 = software_provider (lib, keys)"
    and "requests_reach wlib (boot p0 t0) s"
    and "(Rpc_EncryptField m, Ok (Reply_EncryptField resp), line) \<in> set (served s)"
    and "(Rpc_DecryptField m', reply, line') \<in> set (served s)"
    and "ef_context m = Some c" and "df_context m' = Some c'"
    and "df_wrapped_dek m' = resp_wrapped_dek resp"
  shows "(tenant_id c' \<noteq> tenant_id c \<and>
      \<not> wrapped_key_ambiguous (lib, keys) (kek p0) (tenant_id c) (tenant_id c') (resp_wrapped_dek resp) \<longrightarrow>
        (\<exists>st. reply = Err st)) \<and>
    (tenant_id c' = tenant_id c \<and> df_ciphertext m' = resp_ciphertext resp \<longrightarrow>
        reply = Ok (Reply_DecryptField \<lparr>resp_plaintext = ef_plaintext m\<rparr>) \<or>
        (\<exists>st. reply = Err st \<and> validate (Some c') RowDecrypt True = Err st) \<or>
        reply = Err (resource_exhausted ''operation budget exceeded''))"
proof -
  obtain now q q' where e: "provider q = provider p0" "kek q = kek p0"
    "serve wlib now (Rpc_EncryptField m) q = (Ok (Reply_EncryptField resp), q')"
    by (rule served_sequentially [OF assms(3,4)])
  obtain now' d d' where d: "provider d = provider p0" "kek d = kek p0"
    "serve wlib now' (Rpc_DecryptField m') d = (reply, d')"
    by (rule served_sequentially [OF assms(3,5)])
  note enc = encrypt_served [OF e(3)]
  have reply: "reply = (case fst (decrypt_field_handler now' m' d) of
      Ok a \<Rightarrow> Ok (Reply_DecryptField a) | Err st \<Rightarrow> Err st | Panic \<Rightarrow> Panic)"
    using arg_cong [OF d(3), of fst] by (simp add: map_step_fst)
  have keys: "provider q = software_provider (lib, keys)" "provider d = software_provider (lib, keys)"
    "kek d = kek q" using e d assms(2) by simp_all
  have "\<exists>st. reply = Err st" if "tenant_id c' \<noteq> tenant_id c"
    "\<not> wrapped_key_ambiguous (lib, keys) (kek p0) (tenant_id c) (tenant_id c') (resp_wrapped_dek resp)"
    using software.row_is_sealed [of "(lib, keys)", OF _ keys enc assms(6,7) that(1) assms(8), of now'] that(2)
      assms(1) e(2) by (auto simp: reply)
  moreover have "reply = Ok (Reply_DecryptField \<lparr>resp_plaintext = ef_plaintext m\<rparr>) \<or>
      (\<exists>st. reply = Err st \<and> validate (Some c') RowDecrypt True = Err st) \<or>
      reply = Err (resource_exhausted ''operation budget exceeded'')"
    if same: "tenant_id c' = tenant_id c" "df_ciphertext m' = resp_ciphertext resp"
  proof (cases rule: decrypt_field.handler_cases [of m' now' d])
    case (worked x l)
    then show ?thesis
      using software.row_round_trip [of "(lib, keys)", OF _ keys enc assms(6,7) same assms(8), of now']
        assms(1,7) by (simp add: reply)
  qed (use assms(7) in \<open>simp_all add: reply\<close>)
  ultimately show ?thesis by blast
qed

section \<open>Two requests of the sample process\<close>

definition other_row :: DecryptFieldRequest where
  "other_row = \<lparr>df_context = Some (sample_context ''t2'' RowDecrypt), df_ciphertext = sample_ciphertext,
     df_wrapped_dek = sample_wrapped\<rparr>"

lemma sample_requests:
  obtains s line line' reply where "requests_reach sample_crates (boot sample_process 0) s"
    "served s = [(Rpc_EncryptField sample_row, Ok (Reply_EncryptField
       \<lparr>resp_ciphertext = sample_ciphertext, resp_wrapped_dek = sample_wrapped\<rparr>), line),
      (Rpc_DecryptField other_row, reply, line')]"
proof -
  obtain p1 where "encrypt_field_handler 0 sample_row sample_process =
      (Ok \<lparr>resp_ciphertext = sample_ciphertext, resp_wrapped_dek = sample_wrapped\<rparr>, p1)"
    using sample_written by blast
  then have s1: "serve sample_crates 0 (Rpc_EncryptField sample_row) sample_process =
      (Ok (Reply_EncryptField \<lparr>resp_ciphertext = sample_ciphertext, resp_wrapped_dek = sample_wrapped\<rparr>), p1)"
    by (simp add: map_step_eq(2))
  obtain reply p2 where s2: "serve sample_crates 0 (Rpc_DecryptField other_row) p1 = (reply, p2)" by fastforce
  have "provider p1 = software_provider (sample_lib, sample_keys)"
    using serve_frame(1) [of sample_crates 0 "Rpc_EncryptField sample_row" sample_process]
    unfolding s1 by simp
  then have "reply \<noteq> Panic"
    using serve_total [of p1 sample_crates 0 "Rpc_DecryptField other_row"]
      software_total [OF sample_lib_lawful, of sample_keys]
    unfolding s2 by simp
  with two_requests [OF s1 s2] that show ?thesis by blast
qed

theorem parallel_requests_are_sequential_ones_witness:
  "\<exists>s line line'. requests_reach sample_crates (boot sample_process 0) s \<and> stdout (proc s) = [line, line']"
proof -
  obtain s line line' reply where s: "requests_reach sample_crates (boot sample_process 0) s"
    "served s = [(Rpc_EncryptField sample_row, Ok (Reply_EncryptField
       \<lparr>resp_ciphertext = sample_ciphertext, resp_wrapped_dek = sample_wrapped\<rparr>), line),
      (Rpc_DecryptField other_row, reply, line')]"
    by (rule sample_requests)
  from parallel_requests_are_sequential_ones [OF s(1)] s show ?thesis by (auto simp: sample_process_def)
qed

theorem rows_are_safe_in_parallel_witness:
  "\<exists>s reply line' st. requests_reach sample_crates (boot sample_process 0) s \<and>
     (Rpc_DecryptField other_row, reply, line') \<in> set (served s) \<and> reply = Err st"
proof -
  obtain s line line' reply where s: "requests_reach sample_crates (boot sample_process 0) s"
    "served s = [(Rpc_EncryptField sample_row, Ok (Reply_EncryptField
       \<lparr>resp_ciphertext = sample_ciphertext, resp_wrapped_dek = sample_wrapped\<rparr>), line),
      (Rpc_DecryptField other_row, reply, line')]"
    by (rule sample_requests)
  have "\<not> wrapped_key_ambiguous (sample_lib, sample_keys) (KeyHandle ''kek-1'') ''t1'' ''t2'' sample_wrapped"
    unfolding sample_wrapped_def by (rule sample_unambiguous)
  with rows_are_safe_in_parallel [OF sample_lib_lawful _ s(1), of sample_keys sample_row
      "\<lparr>resp_ciphertext = sample_ciphertext, resp_wrapped_dek = sample_wrapped\<rparr>" line other_row reply line'
      "sample_context ''t1'' RowEncrypt" "sample_context ''t2'' RowDecrypt"]
  have "\<exists>st. reply = Err st"
    by (simp add: s(2) other_row_def sample_row_def) (simp add: sample_context_def)
  with s show ?thesis by auto
qed

end
