(* ===== verification/Service_Floods.thy ===== *)
theory Service_Floods
  imports Service_Threads Rate_Limiter_Readings
begin

text \<open>
  What the limiter of \<open>crypto/src/limits.rs\<close> means for the service of \<open>crypto/src/service.rs\<close> when
  requests run in parallel: the answers with a result, and the requests on their way to one, are
  never more than the ceiling has granted, whatever the interleaving.
\<close>

section \<open>Counting\<close>

text \<open>The answers with a result for the requests of one operation.\<close>

definition results :: "string \<Rightarrow> (Rpc \<times> (Reply, Status) res \<times> string) list \<Rightarrow> nat" where
  "results op answers = length (filter (\<lambda>(r, reply, line). rpc_op r = op \<and> is_ok reply) answers)"

text \<open>A request past the ceiling that may still be answered with a result.\<close>

fun through :: "string \<Rightarrow> request_pc \<Rightarrow> bool" where
  "through op (Ceiling_Ok r c now) = (rpc_op r = op)"
| "through op (In_Budget r c now) = (rpc_op r = op)"
| "through op (Auditing r reply line errs) = (rpc_op r = op \<and> is_ok reply)"
| "through op _ = False"

definition pending :: "string \<Rightarrow> (nat \<Rightarrow> request_pc) \<Rightarrow> nat set" where
  "pending op f = {i. through op (f i)}"

lemma results_simps [simp]:
  "results op [] = 0"
  "results op (xs @ [(r, reply, line)]) = results op xs + of_bool (rpc_op r = op \<and> is_ok reply)"
  by (simp_all add: results_def)

lemma pending_upd:
  assumes "finite (pending op f)"
  shows "finite (pending op (f(i := pc)))"
    and "card (pending op (f(i := pc))) + of_bool (through op (f i)) =
      card (pending op f) + of_bool (through op pc)"
proof -
  have eq: "pending op (f(i := pc)) = (if through op pc then insert i (pending op f) else pending op f - {i})"
    by (auto simp: pending_def)
  show "finite (pending op (f(i := pc)))" unfolding eq using assms by simp
  have i: "through op (f i) \<longleftrightarrow> i \<in> pending op f" by (simp add: pending_def)
  show "card (pending op (f(i := pc))) + of_bool (through op (f i)) =
      card (pending op f) + of_bool (through op pc)"
    unfolding eq i using assms card_Suc_Diff1 [OF assms, of i]
    by (cases "i \<in> pending op f") (simp_all add: insert_absorb del: card_Diff_singleton)
qed

lemma not_through_over_budget [simp]: "\<not> through op (over_budget r)"
  by (simp add: over_budget_def)

section \<open>The invariant\<close>

primrec carried :: "request_pc \<Rightarrow> instant set" where
  "carried Free = {}"
| "carried (Received r) = {}"
| "carried (Gate_Passed r c) = {}"
| "carried (Clock_Known r c now) = {now}"
| "carried (Ceiling_Ok r c now) = {}"
| "carried (In_Budget r c now) = {}"
| "carried (Auditing r reply line errs) = {}"
| "carried (Reporting errs) = {}"

lemma carried_over_budget [simp]: "carried (over_budget r) = {}"
  by (simp add: over_budget_def)

text \<open>Every reading lies between the start and the present.\<close>

definition in_window :: "instant \<Rightarrow> 'g Server_State \<Rightarrow> bool" where
  "in_window t0 s \<longleftrightarrow> t0 \<le> wall s \<and> (\<forall>i. carried (threads s i) \<subseteq> {t0..wall s}) \<and>
     fst ` set (asked s) \<subseteq> {t0..wall s}"

lemma in_window_step:
  assumes "request_step lib s s'" and "in_window t0 s"
  shows "in_window t0 s'"
proof -
  have w: "t0 \<le> wall s" "\<And>i. carried (threads s i) \<subseteq> {t0..wall s}" "fst ` set (asked s) \<subseteq> {t0..wall s}"
    using assms(2) by (simp_all add: in_window_def)
  from assms(1) show ?thesis
  proof cases
    case (time_passes t)
    then have "{t0..wall s} \<subseteq> {t0..wall s'}" by auto
    with w have "carried (threads s i) \<subseteq> {t0..wall s'}" "fst ` set (asked s) \<subseteq> {t0..wall s'}" for i
      by (blast intro: order_trans)+
    with w(1) time_passes show ?thesis by (simp add: in_window_def)
  next
    case (ceiling i r c now ok l)
    with w w(2) [of i] show ?thesis by (simp add: in_window_def)
  qed (use w in \<open>simp_all add: in_window_def\<close>)
qed

definition flood_inv :: "RateLimiter \<Rightarrow> instant \<Rightarrow> string \<Rightarrow> 'g Server_State \<Rightarrow> bool" where
  "flood_inv l t0 op s \<longleftrightarrow>
     same_config l (limiter (proc s)) \<and> follows_readings t0 (limiter (proc s)) (asked s) \<and>
     finite (pending op (threads s)) \<and>
     results op (served s) + card (pending op (threads s)) \<le> grants l t0 (asked s) op"

text \<open>A step that leaves limiter and readings alone, and makes no request pass the ceiling.\<close>

lemma flood_inv_go:
  assumes "flood_inv l t0 op s" and "limiter p' = limiter (proc s)"
    and "of_bool (through op pc) + results op xs \<le> of_bool (through op (threads s i)) + results op (served s)"
  shows "flood_inv l t0 op (go i pc (s\<lparr>proc := p', served := xs\<rparr>))"
  using assms pending_upd [of op "threads s" i pc] by (auto simp: flood_inv_def)

lemma flood_inv_step:
  assumes "request_step lib s s'" and "flood_inv l t0 op s"
    and "token_bucket (global_capacity l) (global_refill_per_sec l)"
  shows "flood_inv l t0 op s'"
proof -
  note I = assms(2) [unfolded flood_inv_def]
  have tb: "token_bucket (global_capacity (limiter (proc s))) (global_refill_per_sec (limiter (proc s)))"
    using I assms(3) by (simp add: same_config_def)
  have go: "flood_inv l t0 op (go i pc s)" if "through op pc \<longrightarrow> through op (threads s i)" for i pc
    using flood_inv_go [OF assms(2) refl, of pc "served s" i] that by simp
  have proc: "flood_inv l t0 op (go i pc (s\<lparr>proc := p'\<rparr>))"
    if "limiter p' = limiter (proc s)" "through op pc \<longrightarrow> through op (threads s i)" for i pc p'
    using flood_inv_go [OF assms(2) that(1), of pc "served s" i] that(2) by simp
  from assms(1) show ?thesis
  proof cases
    case (time_passes t)
    with assms(2) show ?thesis by (simp add: flood_inv_def)
  next
    case (ceiling i r c now ok l')
    have F: "follows_readings t0 (limiter (proc s)) (asked s)" using I by blast
    note sec = ceiling_section [OF tb F ceiling(3)]
    have cfg: "same_config l l'"
      using same_config_trans [OF _ same_config_sections(1), of l "limiter (proc s)" now "rpc_op r"] I ceiling(3)
      by simp
    have "grants l t0 (asked s @ [(now, rpc_op r)]) op = grants l t0 (asked s) op + of_bool (ok \<and> rpc_op r = op)"
      using sec(2) [of op] same_config_ceiling(2) [OF cfg] same_config_ceiling(2) [of l "limiter (proc s)"] I by simp
    moreover have "through op (if ok then Ceiling_Ok r c now else over_budget r) \<longleftrightarrow> ok \<and> rpc_op r = op"
      by simp
    ultimately show ?thesis
      using I sec(1) cfg ceiling(2) pending_upd [of op "threads s" i "if ok then Ceiling_Ok r c now else over_budget r"]
      unfolding ceiling(1) by (simp add: flood_inv_def)
  next
    case (budget i r c now ok l')
    have cfg: "same_config l l'"
      using same_config_trans [OF _ same_config_sections(2), of l "limiter (proc s)" now "tenant_id c" "rpc_op r"]
        I budget(3) by simp
    have "follows_readings t0 l' (asked s)" using tenant_section_readings(1) [OF budget(3)] I by simp
    then show ?thesis
      using I cfg budget(2) pending_upd [of op "threads s" i "if ok then In_Budget r c now else over_budget r"]
      unfolding budget(1) by (auto simp: flood_inv_def)
  next
    case (audit_printed i r reply line errs)
    then show ?thesis
      using flood_inv_go [OF assms(2), of "(proc s)\<lparr>stdout := stdout (proc s) @ [line]\<rparr>" "Reporting errs"
          "served s @ [(r, reply, line)]" i] by simp
  qed (simp_all add: go proc)
qed

lemma flood_inv_reach:
  assumes "requests_reach lib (boot p t0) s" and "token_bucket (global_capacity (limiter p)) (global_refill_per_sec (limiter p))"
    and "global (limiter p) = []"
  shows "flood_inv (limiter p) t0 op s \<and> in_window t0 s"
  using assms(1)
proof (induction rule: requests_reach.induct)
  case requests_start
  show ?case using assms(3) by (simp add: flood_inv_def in_window_def boot_def pending_def follows_readings_start)
next
  case (requests_next s s')
  then show ?case using flood_inv_step [OF _ _ assms(2)] in_window_step by blast
qed

text \<open>With the default limits, in whole answers.\<close>

lemma results_bounded:
  assumes "requests_reach lib (boot p t0) s" and "limiter p = default_limiter order"
    and "wall s \<le> t0 + secs * 1000000000" and "length (asked s) \<le> 1000000000"
    and "secs * (1 + late t0 (op_readings op (asked s))) \<le> 1000000000"
  shows "results op (served s) \<le> 6000 + 1000 * (secs * (1 + late t0 (op_readings op (asked s))))"
proof -
  let ?ts = "op_readings op (asked s)"
  have I: "flood_inv (default_limiter order) t0 op s" "in_window t0 s"
    using flood_inv_reach [OF assms(1)] default_global.token_bucket_axioms by (simp_all add: assms(2))
  then have w: "t0 \<le> wall s" "fst ` set (asked s) \<subseteq> {t0..wall s}" unfolding in_window_def by blast+
  then have "set ?ts \<subseteq> {t0..wall s}" using op_readings_fst [of op "asked s"] by blast
  with w(1) have "climb t0 ?ts \<le> (wall s - t0) * (1 + late t0 ?ts)"
    using climb_late [of t0 t0 "wall s" ?ts] by (fastforce simp: subset_iff)
  also have "\<dots> \<le> (secs * 1000000000) * (1 + late t0 ?ts)"
    using assms(3) by (intro mult_right_mono) simp_all
  finally have "climb t0 ?ts \<le> secs * (1 + late t0 ?ts) * 1000000000" by (simp only: mult_ac)
  then have "grants (default_limiter order) t0 (asked s) op \<le> 6000 + 1000 * (secs * (1 + late t0 ?ts))"
    using assms(4,5) length_op_readings [of op "asked s"] by (intro default_grants [OF same_config_refl]) simp_all
  with I(1) show ?thesis by (simp add: flood_inv_def)
qed

end
