(* ===== verification/Grpc.thy ===== *)
theory Grpc
  imports Context_Gate
begin

text \<open>
  The code that \<open>tonic-build\<close> generates for every service, \<open>crypto/src/gen/.../*.tonic.rs\<close>: the
  server struct with its settings and builders, the arm that serves one unary meth, the reply to
  an unknown path, the client struct with its builders, and the calls. The run time (tonic's
  \<open>Grpc\<close>, its compression and size limits, its interceptors and its transport) and the protobuf
  codec are not under \<open>src\<close>; they are parameters. \<open>Crypto_Grpc\<close> and \<open>Risk_Grpc\<close> instantiate it.
\<close>

section \<open>HTTP\<close>

record http_request =
  http_path :: string
  http_headers :: "(string \<times> string) list"
  http_body :: bytes

record http_response =
  resp_headers :: "(string \<times> string) list"
  resp_body :: bytes

text \<open>A handler on a state of the world, and a service on the wire: \<open>None\<close> when its task panics.\<close>

type_synonym ('a, 'w) handler = "'w \<Rightarrow> ('a, Status) res \<times> 'w"
type_synonym 'w http_service = "http_request \<Rightarrow> 'w \<Rightarrow> http_response option \<times> 'w"

section \<open>The run time\<close>

text \<open>\<open>ProstCodec\<close> for one message type.\<close>

record 'm message_codec =
  encode :: "'m \<Rightarrow> bytes"
  decode :: "bytes \<Rightarrow> ('m, Status) res"

text \<open>
  \<open>EnabledCompressionEncodings\<close>, what \<open>tonic::server::Grpc::unary\<close> does before and after the meth
  (un-framing, decompression and the size limit of a request; compression, the size limit and
  framing of a response), \<open>InterceptedService\<close>, and tonic's constants.
\<close>

record ('enc, 'encs, 'w, 'i) server_lib =
  no_encodings :: 'encs
  enable :: "'encs \<Rightarrow> 'enc \<Rightarrow> 'encs"
  server_receive :: "'encs \<Rightarrow> nat option \<Rightarrow> http_request \<Rightarrow> (bytes, Status) res"
  server_respond :: "'encs \<Rightarrow> nat option \<Rightarrow> http_request \<Rightarrow> (bytes, Status) res \<Rightarrow> http_response"
  intercepted :: "'i \<Rightarrow> 'w http_service \<Rightarrow> 'w http_service"
  grpc_status_header :: string
  content_type_header :: string
  grpc_content_type :: string
  code_header :: "Code \<Rightarrow> string"

text \<open>A transport: whether it is ready, and sending one request.\<close>

record 'w transport =
  t_ready :: "'w \<Rightarrow> (unit, string) res"
  t_send :: "'w http_service"

text \<open>\<open>tonic::transport::Endpoint\<close>, the settings of \<open>tonic::client::Grpc\<close>, and what its \<open>unary\<close>
  does with a request and a response; a broken connection is some status.\<close>

record ('cfg, 'enc, 'w, 'i, 'd, 'ep) client_lib =
  endpoint_new :: "'d \<Rightarrow> ('ep, string) res"
  endpoint_connect :: "'ep \<Rightarrow> ('w transport, string) res"
  grpc_new :: 'cfg
  grpc_with_origin :: "string \<Rightarrow> 'cfg"
  grpc_send_compressed :: "'cfg \<Rightarrow> 'enc \<Rightarrow> 'cfg"
  grpc_accept_compressed :: "'cfg \<Rightarrow> 'enc \<Rightarrow> 'cfg"
  grpc_max_decoding_message_size :: "'cfg \<Rightarrow> nat \<Rightarrow> 'cfg"
  grpc_max_encoding_message_size :: "'cfg \<Rightarrow> nat \<Rightarrow> 'cfg"
  intercepted_transport :: "'i \<Rightarrow> 'w transport \<Rightarrow> 'w transport"
  client_request :: "'cfg \<Rightarrow> string \<Rightarrow> string \<times> string \<Rightarrow> bytes \<Rightarrow> (http_request, Status) res"
  client_response :: "'cfg \<Rightarrow> http_response \<Rightarrow> (bytes, Status) res"
  broken_transport :: Status

section \<open>The server struct\<close>

record ('svc, 'encs) grpc_server =
  inner :: 'svc
  accept_compression_encodings :: 'encs
  send_compression_encodings :: 'encs
  max_decoding_message_size :: "nat option"
  max_encoding_message_size :: "nat option"

definition server_from_arc ::
    "('enc, 'encs, 'w, 'i) server_lib \<Rightarrow> 'svc \<Rightarrow> ('svc, 'encs) grpc_server" where
  "server_from_arc sl arc =
     \<lparr>inner = arc, accept_compression_encodings = no_encodings sl,
      send_compression_encodings = no_encodings sl,
      max_decoding_message_size = None, max_encoding_message_size = None\<rparr>"

definition server_new ::
    "('enc, 'encs, 'w, 'i) server_lib \<Rightarrow> 'svc \<Rightarrow> ('svc, 'encs) grpc_server" where
  "server_new sl svc = server_from_arc sl svc"

definition server_accept_compressed ::
    "('enc, 'encs, 'w, 'i) server_lib \<Rightarrow> ('svc, 'encs) grpc_server \<Rightarrow> 'enc \<Rightarrow> ('svc, 'encs) grpc_server" where
  "server_accept_compressed sl srv encoding =
     srv\<lparr>accept_compression_encodings := enable sl (accept_compression_encodings srv) encoding\<rparr>"

definition server_send_compressed ::
    "('enc, 'encs, 'w, 'i) server_lib \<Rightarrow> ('svc, 'encs) grpc_server \<Rightarrow> 'enc \<Rightarrow> ('svc, 'encs) grpc_server" where
  "server_send_compressed sl srv encoding =
     srv\<lparr>send_compression_encodings := enable sl (send_compression_encodings srv) encoding\<rparr>"

definition server_max_decoding_message_size ::
    "('svc, 'encs) grpc_server \<Rightarrow> nat \<Rightarrow> ('svc, 'encs) grpc_server" where
  "server_max_decoding_message_size srv limit = srv\<lparr>max_decoding_message_size := Some limit\<rparr>"

definition server_max_encoding_message_size ::
    "('svc, 'encs) grpc_server \<Rightarrow> nat \<Rightarrow> ('svc, 'encs) grpc_server" where
  "server_max_encoding_message_size srv limit = srv\<lparr>max_encoding_message_size := Some limit\<rparr>"

definition server_clone :: "('svc, 'encs) grpc_server \<Rightarrow> ('svc, 'encs) grpc_server" where
  "server_clone srv =
     \<lparr>inner = inner srv, accept_compression_encodings = accept_compression_encodings srv,
      send_compression_encodings = send_compression_encodings srv,
      max_decoding_message_size = max_decoding_message_size srv,
      max_encoding_message_size = max_encoding_message_size srv\<rparr>"

section \<open>Serving\<close>

text \<open>One arm of \<open>call\<close>: the meth runs on the decoded message, or not at all.\<close>

definition grpc_unary ::
    "('enc, 'encs, 'w, 'i) server_lib \<Rightarrow> ('svc, 'encs) grpc_server \<Rightarrow> 'm message_codec \<Rightarrow>
       'a message_codec \<Rightarrow> ('m \<Rightarrow> ('a, 'w) handler) \<Rightarrow> 'w http_service" where
  "grpc_unary sl srv req_codec resp_codec meth req w =
     (let respond = (\<lambda>r. Some (server_respond sl (send_compression_encodings srv)
            (max_encoding_message_size srv) req r))
      in case rbind (server_receive sl (accept_compression_encodings srv)
                (max_decoding_message_size srv) req) (decode req_codec) of
           Ok m \<Rightarrow>
             (case meth m w of
                (Ok a, w') \<Rightarrow> (respond (Ok (encode resp_codec a)), w')
              | (Err e, w') \<Rightarrow> (respond (Err e), w')
              | (Panic, w') \<Rightarrow> (None, w'))
         | Err e \<Rightarrow> (respond (Err e), w)
         | Panic \<Rightarrow> (None, w))"

text \<open>The answer to any other path: the status in the headers, an empty body, no method.\<close>

definition unimplemented_response :: "('enc, 'encs, 'w, 'i) server_lib \<Rightarrow> http_response" where
  "unimplemented_response sl =
     (let headers = AList.update (grpc_status_header sl) (code_header sl Unimplemented) [];
          headers = AList.update (content_type_header sl) (grpc_content_type sl) headers
      in \<lparr>resp_headers = headers, resp_body = []\<rparr>)"

section \<open>The client struct\<close>

record ('cfg, 'w) grpc_client =
  grpc_cfg :: 'cfg
  grpc_transport :: "'w transport"

definition client_new ::
    "('cfg, 'enc, 'w, 'i, 'd, 'ep) client_lib \<Rightarrow> 'w transport \<Rightarrow> ('cfg, 'w) grpc_client" where
  "client_new cl t = \<lparr>grpc_cfg = grpc_new cl, grpc_transport = t\<rparr>"

definition client_connect ::
    "('cfg, 'enc, 'w, 'i, 'd, 'ep) client_lib \<Rightarrow> 'd \<Rightarrow> (('cfg, 'w) grpc_client, string) res" where
  "client_connect cl dst =
     rbind (endpoint_new cl dst) (\<lambda>ep.
     rbind (endpoint_connect cl ep) (\<lambda>conn. Ok (client_new cl conn)))"

definition client_with_origin ::
    "('cfg, 'enc, 'w, 'i, 'd, 'ep) client_lib \<Rightarrow> 'w transport \<Rightarrow> string \<Rightarrow> ('cfg, 'w) grpc_client" where
  "client_with_origin cl t origin = \<lparr>grpc_cfg = grpc_with_origin cl origin, grpc_transport = t\<rparr>"

definition client_with_interceptor ::
    "('cfg, 'enc, 'w, 'i, 'd, 'ep) client_lib \<Rightarrow> 'w transport \<Rightarrow> 'i \<Rightarrow> ('cfg, 'w) grpc_client" where
  "client_with_interceptor cl t interceptor = client_new cl (intercepted_transport cl interceptor t)"

definition client_send_compressed ::
    "('cfg, 'enc, 'w, 'i, 'd, 'ep) client_lib \<Rightarrow> ('cfg, 'w) grpc_client \<Rightarrow> 'enc \<Rightarrow> ('cfg, 'w) grpc_client" where
  "client_send_compressed cl c encoding = c\<lparr>grpc_cfg := grpc_send_compressed cl (grpc_cfg c) encoding\<rparr>"

definition client_accept_compressed ::
    "('cfg, 'enc, 'w, 'i, 'd, 'ep) client_lib \<Rightarrow> ('cfg, 'w) grpc_client \<Rightarrow> 'enc \<Rightarrow> ('cfg, 'w) grpc_client" where
  "client_accept_compressed cl c encoding = c\<lparr>grpc_cfg := grpc_accept_compressed cl (grpc_cfg c) encoding\<rparr>"

definition client_max_decoding_message_size ::
    "('cfg, 'enc, 'w, 'i, 'd, 'ep) client_lib \<Rightarrow> ('cfg, 'w) grpc_client \<Rightarrow> nat \<Rightarrow> ('cfg, 'w) grpc_client" where
  "client_max_decoding_message_size cl c limit =
     c\<lparr>grpc_cfg := grpc_max_decoding_message_size cl (grpc_cfg c) limit\<rparr>"

definition client_max_encoding_message_size ::
    "('cfg, 'enc, 'w, 'i, 'd, 'ep) client_lib \<Rightarrow> ('cfg, 'w) grpc_client \<Rightarrow> nat \<Rightarrow> ('cfg, 'w) grpc_client" where
  "client_max_encoding_message_size cl c limit =
     c\<lparr>grpc_cfg := grpc_max_encoding_message_size cl (grpc_cfg c) limit\<rparr>"

text \<open>\<open>self.inner.ready().await.map_err(..)?\<close>, and \<open>self.inner.unary(req, path, codec)\<close>.\<close>

definition client_ready :: "('cfg, 'w) grpc_client \<Rightarrow> 'w \<Rightarrow> (unit, Status) res" where
  "client_ready c w = map_err (\<lambda>e. unknown (''Service was not ready: '' @ e)) (t_ready (grpc_transport c) w)"

definition client_unary ::
    "('cfg, 'enc, 'w, 'i, 'd, 'ep) client_lib \<Rightarrow> ('cfg, 'w) grpc_client \<Rightarrow> string \<Rightarrow> string \<times> string \<Rightarrow>
       'm message_codec \<Rightarrow> 'a message_codec \<Rightarrow> 'm \<Rightarrow> ('a, 'w) handler" where
  "client_unary cl c path meth req_codec resp_codec m w =
     (case client_request cl (grpc_cfg c) path meth (encode req_codec m) of
        Ok req \<Rightarrow>
          (case t_send (grpc_transport c) req w of
             (Some resp, w') \<Rightarrow> (rbind (client_response cl (grpc_cfg c) resp) (decode resp_codec), w')
           | (None, w') \<Rightarrow> (Err (broken_transport cl), w'))
      | Err e \<Rightarrow> (Err e, w)
      | Panic \<Rightarrow> (Panic, w))"

section \<open>A call over the wire\<close>

definition map_ok :: "('a \<Rightarrow> 'b) \<Rightarrow> ('a, 'e) res \<Rightarrow> ('b, 'e) res" where
  "map_ok f r = rbind r (\<lambda>a. Ok (f a))"

text \<open>
  What the run time promises for one call, with the settings of both sides: the request carries
  the path and the bytes to the server, and the response carries the result \<open>r\<close> back. It fails
  when one side refuses the other's compression or a message is over a limit.
\<close>

definition delivers ::
    "('enc, 'encs, 'w, 'i) server_lib \<Rightarrow> ('cfg, 'enc, 'w, 'i, 'd, 'ep) client_lib \<Rightarrow> ('cfg, 'w) grpc_client \<Rightarrow>
       ('svc, 'encs) grpc_server \<Rightarrow> string \<Rightarrow> string \<times> string \<Rightarrow> bytes \<Rightarrow> (bytes, Status) res \<Rightarrow> bool" where
  "delivers sl cl c srv path meth body r \<longleftrightarrow>
     (case client_request cl (grpc_cfg c) path meth body of
        Ok req \<Rightarrow>
          http_path req = path \<and>
          server_receive sl (accept_compression_encodings srv) (max_decoding_message_size srv) req = Ok body \<and>
          client_response cl (grpc_cfg c)
            (server_respond sl (send_compression_encodings srv) (max_encoding_message_size srv) req r) = r
      | _ \<Rightarrow> False)"

text \<open>
  One generated method: the server routes its path to it, and the client sends to that path once
  the transport is ready.
\<close>

locale unary_method =
  fixes serve_on :: "('svc, 'encs) grpc_server \<Rightarrow> 'w http_service"
    and client :: "('cfg, 'w) grpc_client \<Rightarrow> 'm \<Rightarrow> ('a, 'w) handler"
    and sl :: "('enc, 'encs, 'w, 'i) server_lib"
    and cl :: "('cfg, 'enc, 'w, 'i, 'd, 'ep) client_lib"
    and path :: string and name :: "string \<times> string"
    and req_codec :: "'m message_codec" and resp_codec :: "'a message_codec"
    and meth :: "'svc \<Rightarrow> 'm \<Rightarrow> ('a, 'w) handler"
  assumes routed: "http_path req = path \<Longrightarrow>
      serve_on srv req = grpc_unary sl srv req_codec resp_codec (meth (inner srv)) req"
    and sends: "client c m w =
      (case client_ready c w of
         Ok _ \<Rightarrow> client_unary cl c path name req_codec resp_codec m w
       | Err e \<Rightarrow> (Err e, w)
       | Panic \<Rightarrow> (Panic, w))"
begin

text \<open>A remote call is the call of the method.\<close>

lemma remote_call:
  assumes "t_ready (grpc_transport c) w = Ok ()" and "t_send (grpc_transport c) = serve_on srv"
    and "decode req_codec (encode req_codec m) = Ok m"
    and "\<forall>a. fst (meth (inner srv) m w) = Ok a \<longrightarrow> decode resp_codec (encode resp_codec a) = Ok a"
    and "fst (meth (inner srv) m w) \<noteq> Panic"
    and "delivers sl cl c srv path name (encode req_codec m)
           (map_ok (encode resp_codec) (fst (meth (inner srv) m w)))"
  shows "client c m w = meth (inner srv) m w"
proof -
  obtain req where req: "client_request cl (grpc_cfg c) path name (encode req_codec m) = Ok req"
    "http_path req = path"
    "server_receive sl (accept_compression_encodings srv) (max_decoding_message_size srv) req =
       Ok (encode req_codec m)"
    "client_response cl (grpc_cfg c) (server_respond sl (send_compression_encodings srv)
       (max_encoding_message_size srv) req (map_ok (encode resp_codec) (fst (meth (inner srv) m w)))) =
     map_ok (encode resp_codec) (fst (meth (inner srv) m w))"
    using assms(6) by (auto simp: delivers_def split: res.splits)
  show ?thesis
    using assms(3-5) req(4)
    by (cases "meth (inner srv) m w"; cases "fst (meth (inner srv) m w)")
      (auto simp: sends client_ready_def assms(1,2) client_unary_def req(1,3) routed [OF req(2)]
        grpc_unary_def map_ok_def Let_def)
qed

text \<open>A request that the run time or the codec refuses is answered with that status, and the method
  does not run.\<close>

lemma refused_before_method:
  assumes "http_path req = path"
    and "rbind (server_receive sl (accept_compression_encodings srv) (max_decoding_message_size srv) req)
           (decode req_codec) = Err e"
  shows "serve_on srv req w = (Some (server_respond sl (send_compression_encodings srv)
    (max_encoding_message_size srv) req (Err e)), w)"
  using assms by (simp add: routed grpc_unary_def Let_def)

text \<open>A transport that is not ready sends nothing.\<close>

lemma not_ready:
  "t_ready (grpc_transport c) w = Err e \<Longrightarrow>
     client c m w = (Err (unknown (''Service was not ready: '' @ e)), w)"
  by (simp add: sends client_ready_def)

text \<open>Nor is a request sent that the settings of the client forbid.\<close>

lemma not_sent:
  "t_ready (grpc_transport c) w = Ok () \<Longrightarrow>
     client_request cl (grpc_cfg c) path name (encode req_codec m) = Err st \<Longrightarrow> client c m w = (Err st, w)"
  by (simp add: sends client_ready_def client_unary_def)

end

text \<open>A clone serves with the same settings; the builders are last-write and idempotent where the
  run time is.\<close>

lemma server_clone_id [simp]: "server_clone srv = srv"
  by (simp add: server_clone_def)

end
