(* ===== verification/Crypto_Grpc.thy ===== *)
theory Crypto_Grpc
  imports Grpc Service_Properties
begin

text \<open>
  The generated gRPC layer of the crypto service,
  \<open>crypto/src/gen/aiauth/crypto/v1/aiauth.crypto.v1.tonic.rs\<close>: the trait \<open>CryptoService\<close> and its
  implementation by the Guard, the \<open>call\<close> of \<open>CryptoServiceServer\<close> that routes a path to a method,
  and the client methods. Structs and builders are those of \<open>Grpc\<close>.
\<close>

section \<open>The trait\<close>

record 'w CryptoService =
  svc_verify_assertion :: "VerifyAssertionRequest \<Rightarrow> (VerifyAssertionResponse, 'w) handler"
  svc_encrypt_field :: "EncryptFieldRequest \<Rightarrow> (EncryptFieldResponse, 'w) handler"
  svc_decrypt_field :: "DecryptFieldRequest \<Rightarrow> (DecryptFieldResponse, 'w) handler"
  svc_blind_index :: "BlindIndexRequest \<Rightarrow> (BlindIndexResponse, 'w) handler"

text \<open>\<open>impl CryptoService for Guard\<close>, for a call that reads the clock as \<open>now\<close>.\<close>

definition guard_service ::
    "('j, 'v, 's) webauthn_lib \<Rightarrow> instant \<Rightarrow> 'g Process CryptoService" where
  "guard_service lib now =
     \<lparr>svc_verify_assertion = verify_assertion lib now,
      svc_encrypt_field = encrypt_field_handler now,
      svc_decrypt_field = decrypt_field_handler now,
      svc_blind_index = blind_index_handler now\<rparr>"

text \<open>\<open>ProstCodec\<close> for the eight messages.\<close>

record codec =
  va_req :: "VerifyAssertionRequest message_codec"
  va_resp :: "VerifyAssertionResponse message_codec"
  ef_req :: "EncryptFieldRequest message_codec"
  ef_resp :: "EncryptFieldResponse message_codec"
  df_req :: "DecryptFieldRequest message_codec"
  df_resp :: "DecryptFieldResponse message_codec"
  bi_req :: "BlindIndexRequest message_codec"
  bi_resp :: "BlindIndexResponse message_codec"

section \<open>The server\<close>

definition service_name :: string where
  "service_name = ''aiauth.crypto.v1.CryptoService''"

definition poll_ready :: "('svc, 'encs) grpc_server \<Rightarrow> (unit, Status) res" where
  "poll_ready srv = Ok ()"

definition call ::
    "('enc, 'encs, 'w, 'i) server_lib \<Rightarrow> codec \<Rightarrow> ('w CryptoService, 'encs) grpc_server \<Rightarrow> 'w http_service" where
  "call sl cd srv req =
     (let path = http_path req in
      if path = ''/aiauth.crypto.v1.CryptoService/VerifyAssertion'' then
        grpc_unary sl srv (va_req cd) (va_resp cd) (svc_verify_assertion (inner srv)) req
      else if path = ''/aiauth.crypto.v1.CryptoService/EncryptField'' then
        grpc_unary sl srv (ef_req cd) (ef_resp cd) (svc_encrypt_field (inner srv)) req
      else if path = ''/aiauth.crypto.v1.CryptoService/DecryptField'' then
        grpc_unary sl srv (df_req cd) (df_resp cd) (svc_decrypt_field (inner srv)) req
      else if path = ''/aiauth.crypto.v1.CryptoService/BlindIndex'' then
        grpc_unary sl srv (bi_req cd) (bi_resp cd) (svc_blind_index (inner srv)) req
      else (\<lambda>w. (Some (unimplemented_response sl), w)))"

definition server_with_interceptor ::
    "('enc, 'encs, 'w, 'i) server_lib \<Rightarrow> codec \<Rightarrow> 'w CryptoService \<Rightarrow> 'i \<Rightarrow> 'w http_service" where
  "server_with_interceptor sl cd svc interceptor = intercepted sl interceptor (call sl cd (server_new sl svc))"

section \<open>The client\<close>

definition client_verify_assertion ::
    "('cfg, 'enc, 'w, 'i, 'd, 'ep) client_lib \<Rightarrow> codec \<Rightarrow> ('cfg, 'w) grpc_client \<Rightarrow>
       VerifyAssertionRequest \<Rightarrow> (VerifyAssertionResponse, 'w) handler" where
  "client_verify_assertion cl cd c m w =
     (case client_ready c w of
        Ok _ \<Rightarrow>
          client_unary cl c ''/aiauth.crypto.v1.CryptoService/VerifyAssertion''
            (''aiauth.crypto.v1.CryptoService'', ''VerifyAssertion'') (va_req cd) (va_resp cd) m w
      | Err e \<Rightarrow> (Err e, w)
      | Panic \<Rightarrow> (Panic, w))"

definition client_encrypt_field ::
    "('cfg, 'enc, 'w, 'i, 'd, 'ep) client_lib \<Rightarrow> codec \<Rightarrow> ('cfg, 'w) grpc_client \<Rightarrow>
       EncryptFieldRequest \<Rightarrow> (EncryptFieldResponse, 'w) handler" where
  "client_encrypt_field cl cd c m w =
     (case client_ready c w of
        Ok _ \<Rightarrow>
          client_unary cl c ''/aiauth.crypto.v1.CryptoService/EncryptField''
            (''aiauth.crypto.v1.CryptoService'', ''EncryptField'') (ef_req cd) (ef_resp cd) m w
      | Err e \<Rightarrow> (Err e, w)
      | Panic \<Rightarrow> (Panic, w))"

definition client_decrypt_field ::
    "('cfg, 'enc, 'w, 'i, 'd, 'ep) client_lib \<Rightarrow> codec \<Rightarrow> ('cfg, 'w) grpc_client \<Rightarrow>
       DecryptFieldRequest \<Rightarrow> (DecryptFieldResponse, 'w) handler" where
  "client_decrypt_field cl cd c m w =
     (case client_ready c w of
        Ok _ \<Rightarrow>
          client_unary cl c ''/aiauth.crypto.v1.CryptoService/DecryptField''
            (''aiauth.crypto.v1.CryptoService'', ''DecryptField'') (df_req cd) (df_resp cd) m w
      | Err e \<Rightarrow> (Err e, w)
      | Panic \<Rightarrow> (Panic, w))"

definition client_blind_index ::
    "('cfg, 'enc, 'w, 'i, 'd, 'ep) client_lib \<Rightarrow> codec \<Rightarrow> ('cfg, 'w) grpc_client \<Rightarrow>
       BlindIndexRequest \<Rightarrow> (BlindIndexResponse, 'w) handler" where
  "client_blind_index cl cd c m w =
     (case client_ready c w of
        Ok _ \<Rightarrow>
          client_unary cl c ''/aiauth.crypto.v1.CryptoService/BlindIndex''
            (''aiauth.crypto.v1.CryptoService'', ''BlindIndex'') (bi_req cd) (bi_resp cd) m w
      | Err e \<Rightarrow> (Err e, w)
      | Panic \<Rightarrow> (Panic, w))"

section \<open>The four methods\<close>

interpretation verify_assertion_rpc: unary_method "call sl cd" "client_verify_assertion cl cd" sl cl
  "''/aiauth.crypto.v1.CryptoService/VerifyAssertion''"
  "(''aiauth.crypto.v1.CryptoService'', ''VerifyAssertion'')" "va_req cd" "va_resp cd" svc_verify_assertion
  by unfold_locales (simp_all add: call_def client_verify_assertion_def)

interpretation encrypt_field_rpc: unary_method "call sl cd" "client_encrypt_field cl cd" sl cl
  "''/aiauth.crypto.v1.CryptoService/EncryptField''"
  "(''aiauth.crypto.v1.CryptoService'', ''EncryptField'')" "ef_req cd" "ef_resp cd" svc_encrypt_field
  by unfold_locales (simp_all add: call_def client_encrypt_field_def)

interpretation decrypt_field_rpc: unary_method "call sl cd" "client_decrypt_field cl cd" sl cl
  "''/aiauth.crypto.v1.CryptoService/DecryptField''"
  "(''aiauth.crypto.v1.CryptoService'', ''DecryptField'')" "df_req cd" "df_resp cd" svc_decrypt_field
  by unfold_locales (simp_all add: call_def client_decrypt_field_def)

interpretation blind_index_rpc: unary_method "call sl cd" "client_blind_index cl cd" sl cl
  "''/aiauth.crypto.v1.CryptoService/BlindIndex''"
  "(''aiauth.crypto.v1.CryptoService'', ''BlindIndex'')" "bi_req cd" "bi_resp cd" svc_blind_index
  by unfold_locales (simp_all add: call_def client_blind_index_def)

section \<open>Remote calls\<close>

primrec rpc_method :: "Rpc \<Rightarrow> string" where
  "rpc_method (Rpc_VerifyAssertion m) = ''VerifyAssertion''"
| "rpc_method (Rpc_EncryptField m) = ''EncryptField''"
| "rpc_method (Rpc_DecryptField m) = ''DecryptField''"
| "rpc_method (Rpc_BlindIndex m) = ''BlindIndex''"

definition rpc_path :: "Rpc \<Rightarrow> string" where
  "rpc_path r = ''/aiauth.crypto.v1.CryptoService/'' @ rpc_method r"

primrec rpc_bytes :: "codec \<Rightarrow> Rpc \<Rightarrow> bytes" where
  "rpc_bytes cd (Rpc_VerifyAssertion m) = encode (va_req cd) m"
| "rpc_bytes cd (Rpc_EncryptField m) = encode (ef_req cd) m"
| "rpc_bytes cd (Rpc_DecryptField m) = encode (df_req cd) m"
| "rpc_bytes cd (Rpc_BlindIndex m) = encode (bi_req cd) m"

primrec reply_bytes :: "codec \<Rightarrow> Reply \<Rightarrow> bytes" where
  "reply_bytes cd (Reply_VerifyAssertion a) = encode (va_resp cd) a"
| "reply_bytes cd (Reply_EncryptField a) = encode (ef_resp cd) a"
| "reply_bytes cd (Reply_DecryptField a) = encode (df_resp cd) a"
| "reply_bytes cd (Reply_BlindIndex a) = encode (bi_resp cd) a"

text \<open>The client method for a request.\<close>

primrec client_send ::
    "('cfg, 'enc, 'g Process, 'i, 'd, 'ep) client_lib \<Rightarrow> codec \<Rightarrow> ('cfg, 'g Process) grpc_client \<Rightarrow>
       Rpc \<Rightarrow> (Reply, 'g) step" where
  "client_send cl cd c (Rpc_VerifyAssertion m) = map_step Reply_VerifyAssertion (client_verify_assertion cl cd c m)"
| "client_send cl cd c (Rpc_EncryptField m) = map_step Reply_EncryptField (client_encrypt_field cl cd c m)"
| "client_send cl cd c (Rpc_DecryptField m) = map_step Reply_DecryptField (client_decrypt_field cl cd c m)"
| "client_send cl cd c (Rpc_BlindIndex m) = map_step Reply_BlindIndex (client_blind_index cl cd c m)"

text \<open>prost decodes what it encoded.\<close>

primrec decodes :: "codec \<Rightarrow> Rpc \<Rightarrow> bool" where
  "decodes cd (Rpc_VerifyAssertion m) \<longleftrightarrow> decode (va_req cd) (encode (va_req cd) m) = Ok m"
| "decodes cd (Rpc_EncryptField m) \<longleftrightarrow> decode (ef_req cd) (encode (ef_req cd) m) = Ok m"
| "decodes cd (Rpc_DecryptField m) \<longleftrightarrow> decode (df_req cd) (encode (df_req cd) m) = Ok m"
| "decodes cd (Rpc_BlindIndex m) \<longleftrightarrow> decode (bi_req cd) (encode (bi_req cd) m) = Ok m"

primrec decodes_reply :: "codec \<Rightarrow> Reply \<Rightarrow> bool" where
  "decodes_reply cd (Reply_VerifyAssertion a) \<longleftrightarrow> decode (va_resp cd) (encode (va_resp cd) a) = Ok a"
| "decodes_reply cd (Reply_EncryptField a) \<longleftrightarrow> decode (ef_resp cd) (encode (ef_resp cd) a) = Ok a"
| "decodes_reply cd (Reply_DecryptField a) \<longleftrightarrow> decode (df_resp cd) (encode (df_resp cd) a) = Ok a"
| "decodes_reply cd (Reply_BlindIndex a) \<longleftrightarrow> decode (bi_resp cd) (encode (bi_resp cd) a) = Ok a"

lemma guard_service_sel [simp]:
  "svc_verify_assertion (guard_service lib now) = verify_assertion lib now"
  "svc_encrypt_field (guard_service lib now) = encrypt_field_handler now"
  "svc_decrypt_field (guard_service lib now) = decrypt_field_handler now"
  "svc_blind_index (guard_service lib now) = blind_index_handler now"
  by (simp_all add: guard_service_def)

lemma map_ok_map_step:
  "map_ok f (fst (map_step g m p)) = map_ok (\<lambda>a. f (g a)) (fst (m p))"
  by (cases "fst (m p)") (simp_all add: map_ok_def map_step_fst)

lemma map_step_cong: "m p = m' p \<Longrightarrow> map_step f m p = map_step f m' p"
  by (simp add: map_step_def sbind_def)

lemma map_step_all_Ok:
  "(\<forall>b. fst (map_step f m p) = Ok b \<longrightarrow> P b) \<longleftrightarrow> (\<forall>a. fst (m p) = Ok a \<longrightarrow> P (f a))"
  by (auto simp: map_step_fst split: res.splits)

text \<open>What a path that is served, and a request that is taken in there, come to.\<close>

definition served_paths :: "string list" where
  "served_paths = map (\<lambda>m. ''/aiauth.crypto.v1.CryptoService/'' @ m)
     [''VerifyAssertion'', ''EncryptField'', ''DecryptField'', ''BlindIndex'']"

definition decode_status :: "codec \<Rightarrow> string \<Rightarrow> bytes \<Rightarrow> (unit, Status) res" where
  "decode_status cd path b =
     (if path = ''/aiauth.crypto.v1.CryptoService/VerifyAssertion'' then map_ok (\<lambda>_. ()) (decode (va_req cd) b)
      else if path = ''/aiauth.crypto.v1.CryptoService/EncryptField'' then map_ok (\<lambda>_. ()) (decode (ef_req cd) b)
      else if path = ''/aiauth.crypto.v1.CryptoService/DecryptField'' then map_ok (\<lambda>_. ()) (decode (df_req cd) b)
      else map_ok (\<lambda>_. ()) (decode (bi_req cd) b))"

lemma rbind_map_ok_Err: "rbind r (\<lambda>b. map_ok g (f b)) = Err e \<longleftrightarrow> rbind r f = Err e"
proof (cases r)
  case (Ok b)
  then show ?thesis by (cases "f b") (simp_all add: map_ok_def)
qed simp_all

lemma decode_status_path:
  "decode_status cd ''/aiauth.crypto.v1.CryptoService/VerifyAssertion'' = (\<lambda>b. map_ok (\<lambda>_. ()) (decode (va_req cd) b))"
  "decode_status cd ''/aiauth.crypto.v1.CryptoService/EncryptField'' = (\<lambda>b. map_ok (\<lambda>_. ()) (decode (ef_req cd) b))"
  "decode_status cd ''/aiauth.crypto.v1.CryptoService/DecryptField'' = (\<lambda>b. map_ok (\<lambda>_. ()) (decode (df_req cd) b))"
  "decode_status cd ''/aiauth.crypto.v1.CryptoService/BlindIndex'' = (\<lambda>b. map_ok (\<lambda>_. ()) (decode (bi_req cd) b))"
  by (simp_all add: decode_status_def fun_eq_iff)

lemma request_refused:
  assumes "http_path req \<in> set served_paths"
    and "rbind (server_receive sl (accept_compression_encodings srv) (max_decoding_message_size srv) req)
      (decode_status cd (http_path req)) = Err e"
  shows "call sl cd srv req w = (Some (server_respond sl (send_compression_encodings srv)
    (max_encoding_message_size srv) req (Err e)), w)"
proof -
  have "http_path req = ''/aiauth.crypto.v1.CryptoService/VerifyAssertion'' \<or>
      http_path req = ''/aiauth.crypto.v1.CryptoService/EncryptField'' \<or>
      http_path req = ''/aiauth.crypto.v1.CryptoService/DecryptField'' \<or>
      http_path req = ''/aiauth.crypto.v1.CryptoService/BlindIndex''"
    using assms(1) by (simp add: served_paths_def)
  with assms(2) show ?thesis
    by (elim disjE) (simp_all only: decode_status_path rbind_map_ok_Err verify_assertion_rpc.refused_before_method
      encrypt_field_rpc.refused_before_method decrypt_field_rpc.refused_before_method
      blind_index_rpc.refused_before_method)
qed

lemma client_not_ready:
  "t_ready (grpc_transport c) p = Err e \<Longrightarrow>
     client_send cl cd c r p = (Err (unknown (''Service was not ready: '' @ e)), p)"
  by (cases r) (simp_all add: map_step_def sbind_def verify_assertion_rpc.not_ready encrypt_field_rpc.not_ready
      decrypt_field_rpc.not_ready blind_index_rpc.not_ready)

lemma client_not_sent:
  assumes "t_ready (grpc_transport c) p = Ok ()"
    and "client_request cl (grpc_cfg c) (rpc_path r) (service_name, rpc_method r) (rpc_bytes cd r) = Err st"
  shows "client_send cl cd c r p = (Err st, p)"
  using assms
  by (cases r) (simp_all add: map_step_def sbind_def rpc_path_def service_name_def verify_assertion_rpc.not_sent
      encrypt_field_rpc.not_sent decrypt_field_rpc.not_sent blind_index_rpc.not_sent)

lemma client_delivered:
  assumes "t_ready (grpc_transport c) p = Ok ()" and "t_send (grpc_transport c) = call sl cd srv"
    and "inner srv = guard_service lib now" and "decodes cd r"
    and "fst (serve lib now r p) \<noteq> Panic" and "\<forall>a. fst (serve lib now r p) = Ok a \<longrightarrow> decodes_reply cd a"
    and "delivers sl cl c srv (rpc_path r) (service_name, rpc_method r) (rpc_bytes cd r)
           (map_ok (reply_bytes cd) (fst (serve lib now r p)))"
  shows "client_send cl cd c r p = serve lib now r p"
proof (cases r)
  case (Rpc_VerifyAssertion m)
  then show ?thesis
    using assms(3-7) verify_assertion_rpc.remote_call [OF assms(1,2), of m cl]
    by (auto simp: rpc_path_def service_name_def map_ok_map_step map_step_all_Ok intro!: map_step_cong)
next
  case (Rpc_EncryptField m)
  then show ?thesis
    using assms(3-7) encrypt_field_rpc.remote_call [OF assms(1,2), of m cl]
    by (auto simp: rpc_path_def service_name_def map_ok_map_step map_step_all_Ok intro!: map_step_cong)
next
  case (Rpc_DecryptField m)
  then show ?thesis
    using assms(3-7) decrypt_field_rpc.remote_call [OF assms(1,2), of m cl]
    by (auto simp: rpc_path_def service_name_def map_ok_map_step map_step_all_Ok intro!: map_step_cong)
next
  case (Rpc_BlindIndex m)
  then show ?thesis
    using assms(3-7) blind_index_rpc.remote_call [OF assms(1,2), of m cl]
    by (auto simp: rpc_path_def service_name_def map_ok_map_step map_step_all_Ok intro!: map_step_cong)
qed

section \<open>Properties\<close>

text \<open>C15: a remote call is a local one, or none. Over a ready transport that leads to the server and
  delivers the two messages under the settings of both sides, every client method returns the reply of
  the handler of its own operation on the very message it was given and leaves the process as that
  handler does, statuses included. When the transport is not ready, or the client's own settings refuse
  the message, the caller gets that status and nothing is sent: the process stays as it is.\<close>

theorem client_reaches_its_handler:
  "(t_ready (grpc_transport c) p = Ok () \<and> t_send (grpc_transport c) = call sl cd srv \<and>
    inner srv = guard_service lib now \<and> decodes cd r \<and>
    fst (serve lib now r p) \<noteq> Panic \<and> (\<forall>a. fst (serve lib now r p) = Ok a \<longrightarrow> decodes_reply cd a) \<and>
    delivers sl cl c srv (rpc_path r) (service_name, rpc_method r) (rpc_bytes cd r)
      (map_ok (reply_bytes cd) (fst (serve lib now r p))) \<longrightarrow>
      client_send cl cd c r p = serve lib now r p) \<and>
   (t_ready (grpc_transport c) p = Err e \<longrightarrow>
      client_send cl cd c r p = (Err (unknown (''Service was not ready: '' @ e)), p)) \<and>
   (t_ready (grpc_transport c) p = Ok () \<and>
    client_request cl (grpc_cfg c) (rpc_path r) (service_name, rpc_method r) (rpc_bytes cd r) = Err st \<longrightarrow>
      client_send cl cd c r p = (Err st, p))"
proof (intro conjI impI)
  assume "t_ready (grpc_transport c) p = Ok () \<and> t_send (grpc_transport c) = call sl cd srv \<and>
    inner srv = guard_service lib now \<and> decodes cd r \<and>
    fst (serve lib now r p) \<noteq> Panic \<and> (\<forall>a. fst (serve lib now r p) = Ok a \<longrightarrow> decodes_reply cd a) \<and>
    delivers sl cl c srv (rpc_path r) (service_name, rpc_method r) (rpc_bytes cd r)
      (map_ok (reply_bytes cd) (fst (serve lib now r p)))"
  then show "client_send cl cd c r p = serve lib now r p" by (elim conjE) (rule client_delivered)
next
  assume "t_ready (grpc_transport c) p = Err e"
  then show "client_send cl cd c r p = (Err (unknown (''Service was not ready: '' @ e)), p)"
    by (rule client_not_ready)
next
  assume "t_ready (grpc_transport c) p = Ok () \<and>
    client_request cl (grpc_cfg c) (rpc_path r) (service_name, rpc_method r) (rpc_bytes cd r) = Err st"
  then show "client_send cl cd c r p = (Err st, p)" by (elim conjE) (rule client_not_sent)
qed

text \<open>C27: nothing else is served. A request to any path but the four is answered with the status
  \<open>Unimplemented\<close> and an empty body; a request on one of the four that the run time refuses (too large,
  compressed in a way that is not enabled) or whose body the codec of that operation does not decode is
  answered with that status. Neither changes the process: no handler runs, nothing is audited, no
  budget is spent.\<close>

theorem unserved_requests_change_nothing:
  "(http_path req \<notin> set served_paths \<longrightarrow>
      call sl cd srv req w = (Some (unimplemented_response sl), w) \<and>
      resp_body (unimplemented_response sl) = []) \<and>
   (http_path req \<in> set served_paths \<and>
    rbind (server_receive sl (accept_compression_encodings srv) (max_decoding_message_size srv) req)
      (decode_status cd (http_path req)) = Err e \<longrightarrow>
      call sl cd srv req w = (Some (server_respond sl (send_compression_encodings srv)
        (max_encoding_message_size srv) req (Err e)), w))"
  using request_refused [of req sl srv cd e w]
  by (auto simp: call_def served_paths_def unimplemented_response_def Let_def)

section \<open>A run time to make a call on\<close>

text \<open>Bodies travel as they are; a status travels as a header; a body over the limit of the server is
  refused. The codec carries the input of a blind index request and its index, and nothing else.\<close>

primrec toy_code :: "Code \<Rightarrow> string" where
  "toy_code Unknown = ''2''" | "toy_code InvalidArgument = ''3''" | "toy_code PermissionDenied = ''7''"
| "toy_code ResourceExhausted = ''8''" | "toy_code Unimplemented = ''12''" | "toy_code Internal = ''13''"

definition toy_server_lib :: "(unit, unit, 'w, unit) server_lib" where
  "toy_server_lib =
     \<lparr>no_encodings = (), enable = (\<lambda>_ _. ()),
      server_receive = (\<lambda>_ limit req.
        if length (http_body req) \<le> (case limit of Some n \<Rightarrow> n | None \<Rightarrow> 4194304)
        then Ok (http_body req) else Err (resource_exhausted ''message too large'')),
      server_respond = (\<lambda>_ _ _ r. case r of
          Ok b \<Rightarrow> \<lparr>resp_headers = [], resp_body = b\<rparr>
        | Err e \<Rightarrow> \<lparr>resp_headers = [(toy_code (code e), message e)], resp_body = []\<rparr>
        | Panic \<Rightarrow> \<lparr>resp_headers = [], resp_body = []\<rparr>),
      intercepted = (\<lambda>_ s. s), grpc_status_header = ''grpc-status'', content_type_header = ''content-type'',
      grpc_content_type = ''application/grpc'', code_header = toy_code\<rparr>"

definition toy_client_lib :: "(unit, unit, 'w, unit, unit, unit) client_lib" where
  "toy_client_lib =
     \<lparr>endpoint_new = Ok, endpoint_connect = (\<lambda>_. Err ''refused''), grpc_new = (), grpc_with_origin = (\<lambda>_. ()),
      grpc_send_compressed = (\<lambda>_ _. ()), grpc_accept_compressed = (\<lambda>_ _. ()),
      grpc_max_decoding_message_size = (\<lambda>_ _. ()), grpc_max_encoding_message_size = (\<lambda>_ _. ()),
      intercepted_transport = (\<lambda>_ t. t),
      client_request = (\<lambda>_ path _ b. Ok \<lparr>http_path = path, http_headers = [], http_body = b\<rparr>),
      client_response = (\<lambda>_ resp. case resp_headers resp of
          [] \<Rightarrow> Ok (resp_body resp)
        | (h, m) # _ \<Rightarrow> (case find (\<lambda>c. toy_code c = h)
            [Unknown, InvalidArgument, PermissionDenied, ResourceExhausted, Internal, Unimplemented] of
              Some c \<Rightarrow> Err \<lparr>code = c, message = m\<rparr> | None \<Rightarrow> Err (unknown m))),
      broken_transport = unknown ''broken''\<rparr>"

definition toy_codec :: codec where
  "toy_codec =
     \<lparr>va_req = \<lparr>encode = \<lambda>_. [], decode = \<lambda>_. Err (internal [])\<rparr>,
      va_resp = \<lparr>encode = \<lambda>_. [], decode = \<lambda>_. Err (internal [])\<rparr>,
      ef_req = \<lparr>encode = \<lambda>_. [], decode = \<lambda>_. Err (internal [])\<rparr>,
      ef_resp = \<lparr>encode = \<lambda>_. [], decode = \<lambda>_. Err (internal [])\<rparr>,
      df_req = \<lparr>encode = \<lambda>_. [], decode = \<lambda>_. Err (internal [])\<rparr>,
      df_resp = \<lparr>encode = \<lambda>_. [], decode = \<lambda>_. Err (internal [])\<rparr>,
      bi_req = \<lparr>encode = bi_input,
        decode = \<lambda>b. Ok \<lparr>bi_context = Some (sample_context ''t1'' BlindIndex), bi_input = b\<rparr>\<rparr>,
      bi_resp = \<lparr>encode = bi_index, decode = \<lambda>b. Ok \<lparr>bi_index = b\<rparr>\<rparr>\<rparr>"

definition toy_server :: "instant \<Rightarrow> (nat Process CryptoService, unit) grpc_server" where
  "toy_server now = server_max_decoding_message_size
     (server_new (toy_server_lib :: (unit, unit, nat Process, unit) server_lib) (guard_service sample_crates now)) 16"

definition toy_client :: "instant \<Rightarrow> (unit, nat Process) grpc_client" where
  "toy_client now = client_new (toy_client_lib :: (unit, unit, nat Process, unit, unit, unit) client_lib)
     \<lparr>t_ready = \<lambda>_. Ok (), t_send = call toy_server_lib toy_codec (toy_server now)\<rparr>"

lemma toy_status: "find (\<lambda>c. toy_code c = toy_code d)
    [Unknown, InvalidArgument, PermissionDenied, ResourceExhausted, Internal, Unimplemented] = Some d"
  by (cases d) simp_all

lemma toy_delivers:
  assumes "r \<noteq> Panic" and "length body \<le> 16"
  shows "delivers toy_server_lib toy_client_lib c (toy_server now) path name body r"
  using assms toy_status
  by (cases r) (simp_all add: delivers_def toy_server_lib_def toy_client_lib_def toy_server_def
      server_max_decoding_message_size_def server_new_def server_from_arc_def)

definition sleeping_client :: "(unit, nat Process) grpc_client" where
  "sleeping_client = (toy_client 0)\<lparr>grpc_transport := (grpc_transport (toy_client 0))\<lparr>t_ready := \<lambda>_. Err ''closed''\<rparr>\<rparr>"

theorem client_reaches_its_handler_witness:
  "let r = Rpc_BlindIndex \<lparr>bi_context = Some (sample_context ''t1'' BlindIndex), bi_input = [1, 2]\<rparr>
   in client_send toy_client_lib toy_codec (toy_client 0) r sample_process = serve sample_crates 0 r sample_process \<and>
      client_send toy_client_lib toy_codec sleeping_client r sample_process =
        (Err (unknown ''Service was not ready: closed''), sample_process)"
proof -
  let ?r = "Rpc_BlindIndex \<lparr>bi_context = Some (sample_context ''t1'' BlindIndex), bi_input = [1, 2]\<rparr>"
  have total: "fst (serve sample_crates 0 ?r sample_process) \<noteq> Panic"
    by (rule serve_total) (simp add: software_total [OF sample_lib_lawful])
  then have "map_ok f (fst (serve sample_crates 0 ?r sample_process)) \<noteq> Panic" for f
    by (cases "fst (serve sample_crates 0 ?r sample_process)") (simp_all add: map_ok_def)
  then have d: "delivers toy_server_lib toy_client_lib (toy_client 0) (toy_server 0) (rpc_path ?r)
      (service_name, rpc_method ?r) (rpc_bytes toy_codec ?r)
      (map_ok (reply_bytes toy_codec) (fst (serve sample_crates 0 ?r sample_process)))"
    by (intro toy_delivers) (simp_all add: toy_codec_def)
  have replies: "\<forall>a. fst (serve sample_crates 0 ?r sample_process) = Ok a \<longrightarrow> decodes_reply toy_codec a"
    by (simp add: map_step_all_Ok) (simp add: toy_codec_def)
  have toy: "t_ready (grpc_transport (toy_client 0)) sample_process = Ok ()"
    "t_send (grpc_transport (toy_client 0)) = call toy_server_lib toy_codec (toy_server 0)"
    "inner (toy_server 0) = guard_service sample_crates 0" "decodes toy_codec ?r"
    by (simp_all add: toy_client_def client_new_def toy_server_def server_max_decoding_message_size_def
        server_new_def server_from_arc_def) (simp add: toy_codec_def)
  have "client_send toy_client_lib toy_codec (toy_client 0) ?r sample_process = serve sample_crates 0 ?r sample_process"
    using client_reaches_its_handler [THEN conjunct1, of "toy_client 0" sample_process toy_server_lib toy_codec
        "toy_server 0" sample_crates 0 ?r toy_client_lib] toy total replies d by blast
  moreover have "client_send toy_client_lib toy_codec sleeping_client ?r sample_process =
      (Err (unknown (''Service was not ready: '' @ ''closed'')), sample_process)"
    by (rule client_reaches_its_handler [THEN conjunct2, THEN conjunct1, rule_format])
      (simp add: sleeping_client_def)
  ultimately show ?thesis by (simp add: Let_def)
qed

theorem unserved_requests_change_nothing_witness:
  "call toy_server_lib toy_codec (toy_server 0) \<lparr>http_path = ''/'', http_headers = [], http_body = []\<rparr> sample_process =
     (Some \<lparr>resp_headers = [(''grpc-status'', ''12''), (''content-type'', ''application/grpc'')], resp_body = []\<rparr>,
      sample_process) \<and>
   call toy_server_lib toy_codec (toy_server 0)
     \<lparr>http_path = ''/aiauth.crypto.v1.CryptoService/EncryptField'', http_headers = [], http_body = [9]\<rparr> sample_process =
     (Some \<lparr>resp_headers = [(''13'', [])], resp_body = []\<rparr>, sample_process)"
proof
  let ?req = "\<lparr>http_path = ''/'', http_headers = [], http_body = []\<rparr>"
  show "call toy_server_lib toy_codec (toy_server 0) ?req sample_process =
     (Some \<lparr>resp_headers = [(''grpc-status'', ''12''), (''content-type'', ''application/grpc'')], resp_body = []\<rparr>,
      sample_process)"
    using unserved_requests_change_nothing [of ?req toy_server_lib toy_codec "toy_server 0" sample_process]
    by (simp add: served_paths_def) (simp add: unimplemented_response_def toy_server_lib_def)
  let ?enc = "\<lparr>http_path = ''/aiauth.crypto.v1.CryptoService/EncryptField'', http_headers = [], http_body = [9]\<rparr>"
  let ?sl = "toy_server_lib :: (unit, unit, nat Process, unit) server_lib"
  have a: "http_path ?enc \<in> set served_paths" by (simp add: served_paths_def)
  have b: "rbind (server_receive ?sl (accept_compression_encodings (toy_server 0))
      (max_decoding_message_size (toy_server 0)) ?enc) (decode_status toy_codec (http_path ?enc)) = Err (internal [])"
    by (simp add: toy_server_lib_def toy_server_def server_max_decoding_message_size_def server_new_def
        server_from_arc_def decode_status_def toy_codec_def map_ok_def)
  have "call toy_server_lib toy_codec (toy_server 0) ?enc sample_process =
      (Some (server_respond ?sl (send_compression_encodings (toy_server 0))
        (max_encoding_message_size (toy_server 0)) ?enc (Err (internal []))), sample_process)"
    by (rule unserved_requests_change_nothing [THEN conjunct2, THEN mp, OF conjI [OF a b]])
  then show "call toy_server_lib toy_codec (toy_server 0) ?enc sample_process =
      (Some \<lparr>resp_headers = [(''13'', [])], resp_body = []\<rparr>, sample_process)"
    by (simp add: toy_server_lib_def internal_def)
qed

end
