(* ===== verification/Risk_Grpc.thy ===== *)
theory Risk_Grpc
  imports Grpc Float64
begin

text \<open>
  The generated contract of the risk service, \<open>crypto/src/gen/aiauth/risk/v1\<close>: its messages with the
  enumeration of bands, and the client and server of its one method. The crate ships this code and
  implements no risk service: the trait is a parameter. Structs, builders and calls are those of
  \<open>Grpc\<close>, whose contract of a method it interprets once more.
\<close>

section \<open>Bands\<close>

datatype Band = Band_Unspecified | Low | Medium | High

primrec band_discriminant :: "Band \<Rightarrow> nat" where
  "band_discriminant Band_Unspecified = 0"
| "band_discriminant Low = 1"
| "band_discriminant Medium = 2"
| "band_discriminant High = 3"

definition band_as_i32 :: "Band \<Rightarrow> i32" where
  "band_as_i32 b = of_nat (band_discriminant b)"

definition band_try_from :: "i32 \<Rightarrow> Band option" where
  "band_try_from n =
     (if n = 0 then Some Band_Unspecified
      else if n = 1 then Some Low
      else if n = 2 then Some Medium
      else if n = 3 then Some High
      else None)"

primrec band_as_str_name :: "Band \<Rightarrow> string" where
  "band_as_str_name Band_Unspecified = ''BAND_UNSPECIFIED''"
| "band_as_str_name Low = ''BAND_LOW''"
| "band_as_str_name Medium = ''BAND_MEDIUM''"
| "band_as_str_name High = ''BAND_HIGH''"

definition band_from_str_name :: "string \<Rightarrow> Band option" where
  "band_from_str_name v =
     (if v = ''BAND_UNSPECIFIED'' then Some Band_Unspecified
      else if v = ''BAND_LOW'' then Some Low
      else if v = ''BAND_MEDIUM'' then Some Medium
      else if v = ''BAND_HIGH'' then Some High
      else None)"

lemma band_discriminant_inject [simp]: "band_discriminant a = band_discriminant b \<longleftrightarrow> a = b"
  by (cases a; cases b) simp_all

definition band_le :: "Band \<Rightarrow> Band \<Rightarrow> bool" where
  "band_le a b \<longleftrightarrow> band_discriminant a \<le> band_discriminant b"

definition band_less :: "Band \<Rightarrow> Band \<Rightarrow> bool" where
  "band_less a b \<longleftrightarrow> band_discriminant a < band_discriminant b"

instantiation Band :: linorder
begin

definition less_eq_Band :: "Band \<Rightarrow> Band \<Rightarrow> bool" where
  "less_eq_Band = band_le"

definition less_Band :: "Band \<Rightarrow> Band \<Rightarrow> bool" where
  "less_Band = band_less"

instance
  by standard (auto simp: less_eq_Band_def less_Band_def band_le_def band_less_def
      simp flip: band_discriminant_inject)

end

section \<open>Messages\<close>

text \<open>A double on the wire is a rational here.\<close>

record Reason =
  reason_code :: string
  reason_detail :: string
  reason_weight :: rat

record RiskAssessment =
  score :: rat
  band :: i32
  reasons :: "Reason list"
  model_version :: string
  assessed_at_unix_ms :: u64

record ScoreResponse =
  assessment :: "RiskAssessment option"

record ScoreRequest =
  sr_tenant_id :: string
  sr_subject_id :: string
  sr_request_id :: string
  sr_client_ip :: string
  sr_user_agent :: string
  sr_device_fingerprint :: string
  sr_attempted_at_unix_ms :: u64
  sr_country_code :: string

text \<open>prost's derived accessor for the enumeration field \<open>band\<close>.\<close>

definition get_band :: "RiskAssessment \<Rightarrow> Band" where
  "get_band a = (case band_try_from (band a) of Some b \<Rightarrow> b | None \<Rightarrow> Band_Unspecified)"

section \<open>The server\<close>

record 'w RiskService =
  risk_score :: "ScoreRequest \<Rightarrow> (ScoreResponse, 'w) handler"

type_synonym ('w, 'encs) RiskServiceServer = "('w RiskService, 'encs) grpc_server"

record risk_codec =
  score_req :: "ScoreRequest message_codec"
  score_resp :: "ScoreResponse message_codec"

definition risk_service_name :: string where
  "risk_service_name = ''aiauth.risk.v1.RiskService''"

definition risk_server_from_arc ::
    "('enc, 'encs, 'w, 'i) server_lib \<Rightarrow> 'w RiskService \<Rightarrow> ('w, 'encs) RiskServiceServer" where
  "risk_server_from_arc sl arc =
     \<lparr>inner = arc, accept_compression_encodings = no_encodings sl,
      send_compression_encodings = no_encodings sl,
      max_decoding_message_size = None, max_encoding_message_size = None\<rparr>"

definition risk_server_new ::
    "('enc, 'encs, 'w, 'i) server_lib \<Rightarrow> 'w RiskService \<Rightarrow> ('w, 'encs) RiskServiceServer" where
  "risk_server_new sl svc = risk_server_from_arc sl svc"

definition risk_server_accept_compressed ::
    "('enc, 'encs, 'w, 'i) server_lib \<Rightarrow> ('w, 'encs) RiskServiceServer \<Rightarrow> 'enc \<Rightarrow> ('w, 'encs) RiskServiceServer" where
  "risk_server_accept_compressed sl srv encoding =
     srv\<lparr>accept_compression_encodings := enable sl (accept_compression_encodings srv) encoding\<rparr>"

definition risk_server_send_compressed ::
    "('enc, 'encs, 'w, 'i) server_lib \<Rightarrow> ('w, 'encs) RiskServiceServer \<Rightarrow> 'enc \<Rightarrow> ('w, 'encs) RiskServiceServer" where
  "risk_server_send_compressed sl srv encoding =
     srv\<lparr>send_compression_encodings := enable sl (send_compression_encodings srv) encoding\<rparr>"

definition risk_server_max_decoding_message_size ::
    "('w, 'encs) RiskServiceServer \<Rightarrow> nat \<Rightarrow> ('w, 'encs) RiskServiceServer" where
  "risk_server_max_decoding_message_size srv limit = srv\<lparr>max_decoding_message_size := Some limit\<rparr>"

definition risk_server_max_encoding_message_size ::
    "('w, 'encs) RiskServiceServer \<Rightarrow> nat \<Rightarrow> ('w, 'encs) RiskServiceServer" where
  "risk_server_max_encoding_message_size srv limit = srv\<lparr>max_encoding_message_size := Some limit\<rparr>"

definition risk_server_clone :: "('w, 'encs) RiskServiceServer \<Rightarrow> ('w, 'encs) RiskServiceServer" where
  "risk_server_clone srv =
     \<lparr>inner = inner srv, accept_compression_encodings = accept_compression_encodings srv,
      send_compression_encodings = send_compression_encodings srv,
      max_decoding_message_size = max_decoding_message_size srv,
      max_encoding_message_size = max_encoding_message_size srv\<rparr>"

definition risk_poll_ready :: "('w, 'encs) RiskServiceServer \<Rightarrow> (unit, Status) res" where
  "risk_poll_ready srv = Ok ()"

definition risk_call ::
    "('enc, 'encs, 'w, 'i) server_lib \<Rightarrow> risk_codec \<Rightarrow> ('w, 'encs) RiskServiceServer \<Rightarrow> 'w http_service" where
  "risk_call sl cd srv req =
     (if http_path req = ''/aiauth.risk.v1.RiskService/Score'' then
        grpc_unary sl srv (score_req cd) (score_resp cd) (risk_score (inner srv)) req
      else (\<lambda>w. (Some (unimplemented_response sl), w)))"

definition risk_server_with_interceptor ::
    "('enc, 'encs, 'w, 'i) server_lib \<Rightarrow> risk_codec \<Rightarrow> 'w RiskService \<Rightarrow> 'i \<Rightarrow> 'w http_service" where
  "risk_server_with_interceptor sl cd svc interceptor =
     intercepted sl interceptor (risk_call sl cd (risk_server_new sl svc))"

section \<open>The client\<close>

type_synonym ('cfg, 'w) RiskServiceClient = "('cfg, 'w) grpc_client"

definition risk_client_new ::
    "('cfg, 'enc, 'w, 'i, 'd, 'ep) client_lib \<Rightarrow> 'w transport \<Rightarrow> ('cfg, 'w) RiskServiceClient" where
  "risk_client_new cl t = \<lparr>grpc_cfg = grpc_new cl, grpc_transport = t\<rparr>"

definition risk_client_connect ::
    "('cfg, 'enc, 'w, 'i, 'd, 'ep) client_lib \<Rightarrow> 'd \<Rightarrow> (('cfg, 'w) RiskServiceClient, string) res" where
  "risk_client_connect cl dst =
     rbind (endpoint_new cl dst) (\<lambda>ep.
     rbind (endpoint_connect cl ep) (\<lambda>conn. Ok (risk_client_new cl conn)))"

definition risk_client_with_origin ::
    "('cfg, 'enc, 'w, 'i, 'd, 'ep) client_lib \<Rightarrow> 'w transport \<Rightarrow> string \<Rightarrow> ('cfg, 'w) RiskServiceClient" where
  "risk_client_with_origin cl t origin = \<lparr>grpc_cfg = grpc_with_origin cl origin, grpc_transport = t\<rparr>"

definition risk_client_with_interceptor ::
    "('cfg, 'enc, 'w, 'i, 'd, 'ep) client_lib \<Rightarrow> 'w transport \<Rightarrow> 'i \<Rightarrow> ('cfg, 'w) RiskServiceClient" where
  "risk_client_with_interceptor cl t interceptor = risk_client_new cl (intercepted_transport cl interceptor t)"

definition risk_client_send_compressed ::
    "('cfg, 'enc, 'w, 'i, 'd, 'ep) client_lib \<Rightarrow> ('cfg, 'w) RiskServiceClient \<Rightarrow> 'enc \<Rightarrow> ('cfg, 'w) RiskServiceClient" where
  "risk_client_send_compressed cl c encoding =
     c\<lparr>grpc_cfg := grpc_send_compressed cl (grpc_cfg c) encoding\<rparr>"

definition risk_client_accept_compressed ::
    "('cfg, 'enc, 'w, 'i, 'd, 'ep) client_lib \<Rightarrow> ('cfg, 'w) RiskServiceClient \<Rightarrow> 'enc \<Rightarrow> ('cfg, 'w) RiskServiceClient" where
  "risk_client_accept_compressed cl c encoding =
     c\<lparr>grpc_cfg := grpc_accept_compressed cl (grpc_cfg c) encoding\<rparr>"

definition risk_client_max_decoding_message_size ::
    "('cfg, 'enc, 'w, 'i, 'd, 'ep) client_lib \<Rightarrow> ('cfg, 'w) RiskServiceClient \<Rightarrow> nat \<Rightarrow> ('cfg, 'w) RiskServiceClient" where
  "risk_client_max_decoding_message_size cl c limit =
     c\<lparr>grpc_cfg := grpc_max_decoding_message_size cl (grpc_cfg c) limit\<rparr>"

definition risk_client_max_encoding_message_size ::
    "('cfg, 'enc, 'w, 'i, 'd, 'ep) client_lib \<Rightarrow> ('cfg, 'w) RiskServiceClient \<Rightarrow> nat \<Rightarrow> ('cfg, 'w) RiskServiceClient" where
  "risk_client_max_encoding_message_size cl c limit =
     c\<lparr>grpc_cfg := grpc_max_encoding_message_size cl (grpc_cfg c) limit\<rparr>"

definition risk_client_score ::
    "('cfg, 'enc, 'w, 'i, 'd, 'ep) client_lib \<Rightarrow> risk_codec \<Rightarrow> ('cfg, 'w) RiskServiceClient \<Rightarrow>
       ScoreRequest \<Rightarrow> (ScoreResponse, 'w) handler" where
  "risk_client_score cl cd c m w =
     (case client_ready c w of
        Ok _ \<Rightarrow>
          client_unary cl c ''/aiauth.risk.v1.RiskService/Score''
            (''aiauth.risk.v1.RiskService'', ''Score'') (score_req cd) (score_resp cd) m w
      | Err e \<Rightarrow> (Err e, w)
      | Panic \<Rightarrow> (Panic, w))"

interpretation score_rpc: unary_method "risk_call sl cd" "risk_client_score cl cd" sl cl
  "''/aiauth.risk.v1.RiskService/Score''" "(''aiauth.risk.v1.RiskService'', ''Score'')"
  "score_req cd" "score_resp cd" risk_score
  by unfold_locales (simp_all add: risk_call_def risk_client_score_def)

section \<open>Properties\<close>

text \<open>The numbers and the names of the three enumerations on the wire are in one-to-one
  correspondence with their variants: a number or a name that is no variant's is recognised as
  such, and the accessor of a message field reads it as \<open>Unspecified\<close>, the least band and the purpose
  that no operation accepts.\<close>

lemma wire_enumerations_round_trip:
  "(purpose_from_str_name s = Some p \<longleftrightarrow> s = purpose_as_str_name p) \<and>
   (purpose_try_from n = Some p \<longleftrightarrow> n = purpose_as_i32 p) \<and>
   (verdict_from_str_name s = Some v \<longleftrightarrow> s = verdict_as_str_name v) \<and>
   (band_from_str_name s = Some b \<longleftrightarrow> s = band_as_str_name b) \<and>
   (band_try_from n = Some b \<longleftrightarrow> n = band_as_i32 b) \<and>
   (n \<notin> range purpose_as_i32 \<longleftrightarrow> purpose_try_from n = None) \<and>
   (n \<notin> range band_as_i32 \<longleftrightarrow> band_try_from n = None) \<and>
   (purpose c \<notin> range purpose_as_i32 \<longrightarrow> get_purpose c = Purpose_Unspecified) \<and>
   (band a \<notin> range band_as_i32 \<longrightarrow> get_band a = Band_Unspecified \<and> get_band a \<le> b)"
proof -
  have P: "purpose_try_from n = Some p \<longleftrightarrow> n = purpose_as_i32 p" for n p
    using purpose_try_from_Some by auto
  have B: "band_try_from n = Some b \<longleftrightarrow> n = band_as_i32 b" for n b
    by (cases b) (auto simp: band_try_from_def band_as_i32_def)
  have "purpose_from_str_name s = Some p \<longleftrightarrow> s = purpose_as_str_name p"
    by (cases p) (auto simp: purpose_from_str_name_def)
  moreover have "verdict_from_str_name s = Some v \<longleftrightarrow> s = verdict_as_str_name v"
    by (cases v) (auto simp: verdict_from_str_name_def)
  moreover have "band_from_str_name s = Some b \<longleftrightarrow> s = band_as_str_name b"
    by (cases b) (auto simp: band_from_str_name_def)
  moreover have "n \<notin> range purpose_as_i32 \<longleftrightarrow> purpose_try_from n = None" for n
    by (metis P not_None_eq rangeE rangeI)
  moreover have "n \<notin> range band_as_i32 \<longleftrightarrow> band_try_from n = None" for n
    by (metis B not_None_eq rangeE rangeI)
  ultimately show ?thesis
    by (simp add: P B get_purpose_def get_band_def less_eq_Band_def band_le_def)
qed

lemma wire_enumerations_round_trip_witness:
  "get_band \<lparr>score = 1, band = 7, reasons = [], model_version = [], assessed_at_unix_ms = 0\<rparr> = Band_Unspecified"
proof -
  have "(7 :: i32) \<notin> range band_as_i32"
  proof
    assume "(7 :: i32) \<in> range band_as_i32"
    then obtain b where "7 = band_as_i32 b" by blast
    then show False by (cases b) (simp_all add: band_as_i32_def)
  qed
  with wire_enumerations_round_trip [of "[]" Purpose_Unspecified 7 Verdict_Unspecified High
      "\<lparr>tenant_id = [], subject_id = [], purpose = 0, request_id = []\<rparr>"
      "\<lparr>score = 1, band = 7, reasons = [], model_version = [], assessed_at_unix_ms = 0\<rparr>"]
  show ?thesis by simp
qed

text \<open>C33: the generated risk client and server are transparent where the run time delivers. Under settings
  of the two sides with which it delivers this call, a score over a ready transport is the service's own
  answer; a client whose transport is not ready gets that error and nothing is sent; a request that the
  run time or the codec refuses is answered with that status, and every other path with
  \<open>Unimplemented\<close>, and neither reaches the service.\<close>

theorem risk_client_reaches_its_service:
  "(t_ready (grpc_transport c) w = Ok () \<and> t_send (grpc_transport c) = risk_call sl cd srv \<and>
    decode (score_req cd) (encode (score_req cd) m) = Ok m \<and> fst (risk_score (inner srv) m w) \<noteq> Panic \<and>
    (\<forall>a. fst (risk_score (inner srv) m w) = Ok a \<longrightarrow> decode (score_resp cd) (encode (score_resp cd) a) = Ok a) \<and>
    delivers sl cl c srv ''/aiauth.risk.v1.RiskService/Score'' (risk_service_name, ''Score'')
      (encode (score_req cd) m) (map_ok (encode (score_resp cd)) (fst (risk_score (inner srv) m w))) \<longrightarrow>
      risk_client_score cl cd c m w = risk_score (inner srv) m w) \<and>
   (t_ready (grpc_transport c) w = Err e \<longrightarrow>
      risk_client_score cl cd c m w = (Err (unknown (''Service was not ready: '' @ e)), w)) \<and>
   (http_path req = ''/aiauth.risk.v1.RiskService/Score'' \<and>
    rbind (server_receive sl (accept_compression_encodings srv) (max_decoding_message_size srv) req)
      (decode (score_req cd)) = Err st \<longrightarrow>
      risk_call sl cd srv req w = (Some (server_respond sl (send_compression_encodings srv)
        (max_encoding_message_size srv) req (Err st)), w)) \<and>
   (http_path req \<noteq> ''/aiauth.risk.v1.RiskService/Score'' \<longrightarrow>
      risk_call sl cd srv req w = (Some (unimplemented_response sl), w))"
proof (intro conjI impI)
  assume "t_ready (grpc_transport c) w = Ok () \<and> t_send (grpc_transport c) = risk_call sl cd srv \<and>
    decode (score_req cd) (encode (score_req cd) m) = Ok m \<and> fst (risk_score (inner srv) m w) \<noteq> Panic \<and>
    (\<forall>a. fst (risk_score (inner srv) m w) = Ok a \<longrightarrow> decode (score_resp cd) (encode (score_resp cd) a) = Ok a) \<and>
    delivers sl cl c srv ''/aiauth.risk.v1.RiskService/Score'' (risk_service_name, ''Score'')
      (encode (score_req cd) m) (map_ok (encode (score_resp cd)) (fst (risk_score (inner srv) m w)))"
  then show "risk_client_score cl cd c m w = risk_score (inner srv) m w"
    by (elim conjE, intro score_rpc.remote_call) (simp_all add: risk_service_name_def)
next
  assume "t_ready (grpc_transport c) w = Err e"
  then show "risk_client_score cl cd c m w = (Err (unknown (''Service was not ready: '' @ e)), w)"
    by (rule score_rpc.not_ready)
next
  assume "http_path req = ''/aiauth.risk.v1.RiskService/Score'' \<and>
    rbind (server_receive sl (accept_compression_encodings srv) (max_decoding_message_size srv) req)
      (decode (score_req cd)) = Err st"
  then show "risk_call sl cd srv req w = (Some (server_respond sl (send_compression_encodings srv)
      (max_encoding_message_size srv) req (Err st)), w)"
    by (elim conjE) (rule score_rpc.refused_before_method)
qed (simp add: risk_call_def)

section \<open>A run time to make a call on\<close>

text \<open>The body is the request, tenant and all, or an assessment of band \<open>High\<close>, whatever is asked.\<close>

definition always_high :: RiskAssessment where
  "always_high = \<lparr>score = 1, band = band_as_i32 High, reasons = [], model_version = ''m1'', assessed_at_unix_ms = 0\<rparr>"

definition high_codec :: risk_codec where
  "high_codec =
     \<lparr>score_req = \<lparr>encode = \<lambda>m. as_bytes (sr_tenant_id m), decode = \<lambda>b. Ok
        \<lparr>sr_tenant_id = map (\<lambda>w. char_of (unat w)) b, sr_subject_id = [], sr_request_id = [], sr_client_ip = [],
         sr_user_agent = [], sr_device_fingerprint = [], sr_attempted_at_unix_ms = 0, sr_country_code = []\<rparr>\<rparr>,
      score_resp = \<lparr>encode = \<lambda>_. [3], decode = \<lambda>_. Ok \<lparr>assessment = Some always_high\<rparr>\<rparr>\<rparr>"

definition plain_server_lib :: "(unit, unit, nat, unit) server_lib" where
  "plain_server_lib =
     \<lparr>no_encodings = (), enable = (\<lambda>_ _. ()), server_receive = (\<lambda>_ _ req. Ok (http_body req)),
      server_respond = (\<lambda>_ _ _ r. \<lparr>resp_headers = [], resp_body = (case r of Ok b \<Rightarrow> b | _ \<Rightarrow> [])\<rparr>),
      intercepted = (\<lambda>_ s. s), grpc_status_header = ''grpc-status'', content_type_header = ''content-type'',
      grpc_content_type = ''application/grpc'', code_header = (\<lambda>_. ''12'')\<rparr>"

definition plain_client_lib :: "(unit, unit, nat, unit, unit, unit) client_lib" where
  "plain_client_lib =
     \<lparr>endpoint_new = Ok, endpoint_connect = (\<lambda>_. Err ''refused''), grpc_new = (), grpc_with_origin = (\<lambda>_. ()),
      grpc_send_compressed = (\<lambda>_ _. ()), grpc_accept_compressed = (\<lambda>_ _. ()),
      grpc_max_decoding_message_size = (\<lambda>_ _. ()), grpc_max_encoding_message_size = (\<lambda>_ _. ()),
      intercepted_transport = (\<lambda>_ t. t),
      client_request = (\<lambda>_ path _ b. Ok \<lparr>http_path = path, http_headers = [], http_body = b\<rparr>),
      client_response = (\<lambda>_ resp. Ok (resp_body resp)), broken_transport = unknown ''broken''\<rparr>"

definition high_server :: "(nat, unit) RiskServiceServer" where
  "high_server = risk_server_new plain_server_lib
     \<lparr>risk_score = \<lambda>m n. (Ok \<lparr>assessment = Some always_high\<rparr>, n + 1)\<rparr>"

definition high_client :: "(unit, nat) RiskServiceClient" where
  "high_client = risk_client_new plain_client_lib
     \<lparr>t_ready = \<lambda>_. Ok (), t_send = risk_call plain_server_lib high_codec high_server\<rparr>"

definition high_request :: ScoreRequest where
  "high_request =
     \<lparr>sr_tenant_id = ''t1'', sr_subject_id = [], sr_request_id = [], sr_client_ip = [], sr_user_agent = [],
      sr_device_fingerprint = [], sr_attempted_at_unix_ms = 0, sr_country_code = []\<rparr>"

theorem risk_client_reaches_its_service_witness:
  "risk_client_score plain_client_lib high_codec high_client high_request 5 =
     (Ok \<lparr>assessment = Some always_high\<rparr>, 6) \<and>
   risk_call plain_server_lib high_codec high_server \<lparr>http_path = ''/'', http_headers = [], http_body = []\<rparr> 5 =
     (Some (unimplemented_response plain_server_lib), 5)"
proof
  have "risk_client_score plain_client_lib high_codec high_client high_request 5 =
      risk_score (inner high_server) high_request 5"
    by (rule risk_client_reaches_its_service [where sl = plain_server_lib, THEN conjunct1, rule_format])
      (simp add: high_client_def high_server_def high_codec_def high_request_def risk_client_new_def
        risk_server_new_def risk_server_from_arc_def delivers_def map_ok_def plain_server_lib_def
        plain_client_lib_def)
  then show "risk_client_score plain_client_lib high_codec high_client high_request 5 =
      (Ok \<lparr>assessment = Some always_high\<rparr>, 6)"
    by (simp add: high_server_def risk_server_new_def risk_server_from_arc_def)
  show "risk_call plain_server_lib high_codec high_server \<lparr>http_path = ''/'', http_headers = [], http_body = []\<rparr> 5 =
      (Some (unimplemented_response plain_server_lib), 5)"
    by (rule risk_client_reaches_its_service [THEN conjunct2, THEN conjunct2, THEN conjunct2, rule_format]) simp
qed

end
