(* ===== verification/Profile.thy ===== *)
theory Profile
  imports Provider "HOL-Library.Sublist"
begin

text \<open>
  Deployment profiles, \<open>crypto/src/profile.rs\<close>: parsing a profile name (with \<open>str::trim\<close> and
  \<open>to_ascii_lowercase\<close> written out on UTF-8 bytes), printing it, and the startup precondition
  of the regulated profile.
\<close>

section \<open>Standard library: trim, Debug\<close>

text \<open>The UTF-8 encodings of the characters with the Unicode property White\_Space.\<close>

definition white_space :: "string list" where
  "white_space =
     [[CHR 0x09], [CHR 0x0A], [CHR 0x0B], [CHR 0x0C], [CHR 0x0D], [CHR 0x20],
      [CHR 0xC2, CHR 0x85], [CHR 0xC2, CHR 0xA0], [CHR 0xE1, CHR 0x9A, CHR 0x80]] @
     map (\<lambda>c. [CHR 0xE2, CHR 0x80, c])
       [CHR 0x80, CHR 0x81, CHR 0x82, CHR 0x83, CHR 0x84, CHR 0x85, CHR 0x86, CHR 0x87, CHR 0x88,
        CHR 0x89, CHR 0x8A, CHR 0xA8, CHR 0xA9, CHR 0xAF] @
     [[CHR 0xE2, CHR 0x81, CHR 0x9F], [CHR 0xE3, CHR 0x80, CHR 0x80]]"

definition leading :: "string list \<Rightarrow> string \<Rightarrow> string option" where
  "leading ws s = find (\<lambda>w. w \<noteq> [] \<and> take (length w) s = w) ws"

lemma leading_SomeD:
  assumes "leading ws s = Some w"
  shows "w \<in> set ws" and "w \<noteq> []" and "s = w @ drop (length w) s"
proof -
  have *: "w \<in> set ws \<and> w \<noteq> [] \<and> take (length w) s = w"
    using assms by (auto simp: leading_def find_Some_iff)
  then show "w \<in> set ws" "w \<noteq> []" by simp_all
  show "s = w @ drop (length w) s" using * by (metis append_take_drop_id)
qed

lemma leading_shorter: "leading ws s = Some w \<Longrightarrow> length (drop (length w) s) < length s"
  using leading_SomeD(2,3) [of ws s w] by (metis add_less_same_cancel2 length_append length_greater_0_conv
      less_add_same_cancel2)

text \<open>Strip what begins the string as long as something in the list does.\<close>

function strip_leading :: "string list \<Rightarrow> string \<Rightarrow> string" where
  "strip_leading ws s =
     (case leading ws s of
        Some w \<Rightarrow> strip_leading ws (drop (length w) s)
      | None \<Rightarrow> s)"
  by pat_completeness auto
termination
  by (relation "measure (\<lambda>(ws, s). length s)") (simp_all only: in_measure wf_measure case_prod_conv leading_shorter)

declare strip_leading.simps [simp del]

definition trim_start :: "string \<Rightarrow> string" where
  "trim_start s = strip_leading white_space s"

definition trim_end :: "string \<Rightarrow> string" where
  "trim_end s = rev (strip_leading (map rev white_space) (rev s))"

definition trim :: "string \<Rightarrow> string" where
  "trim s = trim_end (trim_start s)"

text \<open>
  \<open>{:?}\<close> of a string: quotes, and escapes for the quote, the backslash and ASCII control
  characters. Bytes above 127 belong to printable characters here and stand as they are.
\<close>

definition hex_digit :: "nat \<Rightarrow> char" where
  "hex_digit n = (if n < 10 then char_of (48 + n) else char_of (87 + n))"

definition debug_char :: "char \<Rightarrow> string" where
  "debug_char c =
     (let n = of_char c :: nat in
      if n = 0 then [CHR 0x5C, CHR ''0'']
      else if n = 9 then [CHR 0x5C, CHR ''t'']
      else if n = 10 then [CHR 0x5C, CHR ''n'']
      else if n = 13 then [CHR 0x5C, CHR ''r'']
      else if n = 34 \<or> n = 92 then [CHR 0x5C, c]
      else if n < 32 \<or> n = 127 then
        [CHR 0x5C, CHR ''u'', CHR 0x7B] @
        (if n < 16 then [hex_digit n] else [hex_digit (n div 16), hex_digit (n mod 16)]) @ [CHR 0x7D]
      else [c])"

definition debug_str :: "string \<Rightarrow> string" where
  "debug_str s = [CHR 0x22] @ concat (map debug_char s) @ [CHR 0x22]"

section \<open>Profiles\<close>

datatype Profile = Strict | Balanced | Legacy | Regulated

definition parse_profile :: "string \<Rightarrow> (Profile, string) res" where
  "parse_profile s =
     (let other = to_ascii_lowercase (trim s) in
      if other = ''strict'' then Ok Strict
      else if other = ''balanced'' then Ok Balanced
      else if other = ''legacy'' then Ok Legacy
      else if other = ''regulated'' then Ok Regulated
      else Err (''unknown profile '' @ debug_str other @
        '': expected strict, balanced, legacy, or regulated''))"

primrec profile_as_str :: "Profile \<Rightarrow> string" where
  "profile_as_str Strict = ''strict''"
| "profile_as_str Balanced = ''balanced''"
| "profile_as_str Legacy = ''legacy''"
| "profile_as_str Regulated = ''regulated''"

definition default_profile :: Profile where
  "default_profile = Strict"

datatype StartupRefusal = ProviderNotValidated (refused_profile: string) (refused_module: string)

primrec refusal_display :: "StartupRefusal \<Rightarrow> string" where
  "refusal_display (ProviderNotValidated prof module) =
     ''profile '' @ prof @ '' requires a FIPS 140-3 validated cryptographic module, '' @
     ''but the configured provider is '' @ module @ '', which is not validated. '' @
     ''Configure a validated backend or run a different profile.''"

definition check_profile :: "Profile \<Rightarrow> ProviderAttestation \<Rightarrow> (unit, StartupRefusal) res" where
  "check_profile prof att =
     (if prof = Regulated \<and> \<not> fips att
      then Err (ProviderNotValidated (profile_as_str prof) (att_module att))
      else Ok ())"

section \<open>Trimming\<close>

definition prefix_free :: "string list \<Rightarrow> bool" where
  "prefix_free ws \<longleftrightarrow> (\<forall>v \<in> set ws. v \<noteq> [] \<and> (\<forall>w \<in> set ws. prefix v w \<longrightarrow> v = w))"

lemma leading_append:
  assumes "prefix_free ws" and "w \<in> set ws"
  shows "leading ws (w @ s) = Some w"
proof (cases "leading ws (w @ s)")
  case None
  then have "\<not> (w \<noteq> [] \<and> take (length w) (w @ s) = w)"
    using assms(2) unfolding leading_def find_None_iff by blast
  then show ?thesis using assms by (auto simp: prefix_free_def)
next
  case (Some v)
  then have v: "v \<in> set ws" "prefix v (w @ s)" by (auto dest: leading_SomeD intro: prefixI)
  then have "prefix v w \<or> prefix w v" by (metis prefix_same_cases prefixI)
  then have "v = w" using assms v(1) by (auto simp: prefix_free_def)
  with Some show ?thesis by simp
qed

lemma strip_leading_concat:
  "prefix_free ws \<Longrightarrow> set vs \<subseteq> set ws \<Longrightarrow> strip_leading ws (concat vs @ s) = strip_leading ws s"
proof (induction vs)
  case (Cons v vs)
  then show ?case
    using leading_append [of ws v "concat vs @ s"] by (subst strip_leading.simps) simp
qed simp

lemma strip_leading_stops:
  assumes "\<forall>w \<in> set ws. \<forall>c \<in> set w. c \<noteq> d"
  shows "strip_leading ws (d # s) = d # s"
proof -
  have "leading ws (d # s) = None"
  proof (rule ccontr)
    assume "leading ws (d # s) \<noteq> None"
    then obtain w where w: "leading ws (d # s) = Some w" by auto
    from leading_SomeD(2,3) [OF w] have "d \<in> set w" by (cases w) auto
    with leading_SomeD(1) [OF w] assms show False by blast
  qed
  then show ?thesis by (subst strip_leading.simps) simp
qed

lemma prefix_free_white_space: "prefix_free white_space" "prefix_free (map rev white_space)"
  by (simp_all add: prefix_free_def white_space_def)

text \<open>Trimming removes exactly the white space around a text that begins and ends with none.\<close>

lemma trim_surrounded:
  assumes "set pre \<subseteq> set white_space" and "set post \<subseteq> set white_space"
    and "\<forall>w \<in> set white_space. \<forall>c \<in> set w. c \<noteq> hd s \<and> c \<noteq> last s" and "s \<noteq> []"
  shows "trim (concat pre @ s @ concat post) = s"
proof -
  have "trim_start (concat pre @ s @ concat post) = strip_leading white_space (s @ concat post)"
    unfolding trim_start_def using prefix_free_white_space(1) assms(1) by (rule strip_leading_concat)
  also have "\<dots> = s @ concat post"
    using strip_leading_stops [of white_space "hd s" "tl s @ concat post"] assms(3,4)
    by (cases s) auto
  finally have start: "trim_start (concat pre @ s @ concat post) = s @ concat post" .
  have "rev (s @ concat post) = concat (map rev (rev post)) @ rev s"
    by (simp add: rev_concat rev_map)
  moreover have "set (map rev (rev post)) \<subseteq> set (map rev white_space)" using assms(2) by auto
  ultimately have "strip_leading (map rev white_space) (rev (s @ concat post)) =
      strip_leading (map rev white_space) (rev s)"
    by (metis prefix_free_white_space(2) strip_leading_concat)
  also have "\<dots> = rev s"
    using strip_leading_stops [of "map rev white_space" "last s" "rev (butlast s)"] assms(3,4)
    by (metis (no_types, lifting) append_butlast_last_id image_iff list.set_map rev.simps(2)
        rev_rev_ident set_rev rev_append append_Cons append_Nil)
  finally show ?thesis by (simp add: trim_def trim_end_def start)
qed

section \<open>Parsing\<close>

lemma profile_as_str_inject: "profile_as_str p = profile_as_str q \<longleftrightarrow> p = q"
  by (cases p; cases q) simp_all

lemma parse_profile_Ok_iff:
  "parse_profile s = Ok p \<longleftrightarrow> to_ascii_lowercase (trim s) = profile_as_str p"
  by (cases p) (auto simp: parse_profile_def Let_def)

lemma parse_profile_no_panic [simp]: "parse_profile s \<noteq> Panic"
  by (simp add: parse_profile_def Let_def)

lemma check_profile_Ok_iff: "check_profile p att = Ok () \<longleftrightarrow> p \<noteq> Regulated \<or> fips att"
  by (auto simp: check_profile_def)

lemma white_space_unchanged:
  "\<forall>w \<in> set white_space. \<forall>c \<in> set w. to_ascii_lowercase [c] = [c] \<and>
     c \<notin> set ''stricbalnedgyu''"
  by (simp add: white_space_def to_ascii_lowercase_def)

lemma lowercase_letter_ends:
  assumes "to_ascii_lowercase s = profile_as_str p"
  shows "s \<noteq> []" and "\<forall>w \<in> set white_space. \<forall>c \<in> set w. c \<noteq> hd s \<and> c \<noteq> last s"
proof -
  show "s \<noteq> []" using assms by (cases p) (auto simp: to_ascii_lowercase_def)
  have "set (profile_as_str p) \<subseteq> set ''stricbalnedgyu''" by (cases p) simp_all
  moreover have "set (to_ascii_lowercase [c]) \<subseteq> set (profile_as_str p)" if "c \<in> set s" for c
    using that unfolding assms [symmetric] by (auto simp: to_ascii_lowercase_def)
  ultimately have "to_ascii_lowercase [c] \<noteq> [c] \<or> c \<in> set ''stricbalnedgyu''" if "c \<in> set s" for c
    using that by fastforce
  with white_space_unchanged \<open>s \<noteq> []\<close>
  show "\<forall>w \<in> set white_space. \<forall>c \<in> set w. c \<noteq> hd s \<and> c \<noteq> last s"
    by (metis hd_in_set last_in_set)
qed

text \<open>C34: a profile name is recognised in any case and inside any Unicode white space, and then
  yields exactly the profile that prints as this name.\<close>

theorem profile_names_round_trip:
  assumes "to_ascii_lowercase s = profile_as_str p"
    and "set pre \<subseteq> set white_space" and "set post \<subseteq> set white_space"
  shows "parse_profile (concat pre @ s @ concat post) = Ok p"
  using trim_surrounded [OF assms(2,3) lowercase_letter_ends(2,1) [OF assms(1)]] assms(1)
  by (simp add: parse_profile_Ok_iff)

theorem profile_names_round_trip_witness: "parse_profile '' Regulated '' = Ok Regulated"
proof -
  have "to_ascii_lowercase ''Regulated'' = profile_as_str Regulated" by code_simp
  from profile_names_round_trip [OF this, of "['' '']" "['' '']"] show ?thesis
    by (simp add: white_space_def)
qed

text \<open>There is no fallback: whatever the configuration says, parsing either returns the profile of
  that very name or an error, and an error only for a text that is no profile's name.\<close>

lemma parse_profile_never_falls_back:
  "case parse_profile s of
     Ok p \<Rightarrow> to_ascii_lowercase (trim s) = profile_as_str p
   | Err e \<Rightarrow> to_ascii_lowercase (trim s) \<notin> range profile_as_str
   | Panic \<Rightarrow> False"
  by (cases "parse_profile s") (auto simp flip: parse_profile_Ok_iff)

end
