(* ===== verification/Startup.thy ===== *)
theory Startup
  imports Service Profile Software_Provider_Properties
begin

text \<open>
  The process, \<open>crypto/src/main.rs\<close>: configuration from the environment, credentials, development
  keys, the profile precondition, and the start of the server. The environment, the file system,
  the address parser and tonic's server are the parameter \<open>env\<close>.
\<close>

section \<open>The environment\<close>

datatype VarError = NotPresent | NotUnicode

text \<open>
  \<open>std::env::var\<close>, \<open>std::fs::read\<close>, \<open>str::parse\<close> for \<open>SocketAddr\<close> and its \<open>Display\<close>,
  \<open>Server::tls_config\<close> for a certificate, a key and a client CA, and \<open>serve_with_shutdown\<close> with the
  outcome of \<open>tokio::signal::ctrl_c\<close>: whether the signal came before the server ended, and how the
  server ended.
\<close>

record 'addr environment =
  env_var :: "string \<Rightarrow> (string, VarError) res"
  fs_read :: "string \<Rightarrow> (bytes, string) res"
  parse_addr :: "string \<Rightarrow> ('addr, string) res"
  addr_display :: "'addr \<Rightarrow> string"
  tls_config :: "bytes \<Rightarrow> bytes \<Rightarrow> bytes \<Rightarrow> (unit, string) res"
  serve_with_shutdown :: "'addr \<Rightarrow> bool \<times> (unit, string) res"

text \<open>How \<open>main\<close> stops: \<open>process::exit(1)\<close> after one line on standard error, or an error returned.\<close>

datatype stop = Exit_1 (fatal_line: string) | Main_Err string

record 'addr Config =
  cfg_addr :: 'addr
  cfg_ca :: bytes
  cfg_cert :: bytes
  cfg_key :: bytes
  cfg_profile :: Profile
  cfg_index_key :: KeyHandle
  cfg_kek :: KeyHandle
  cfg_keys :: key_map

section \<open>main\<close>

definition required_env :: "'addr environment \<Rightarrow> string \<Rightarrow> (string, stop) res" where
  \<open>required_env env name =
     (case env_var env name of
        Ok v \<Rightarrow> if v \<noteq> [] then Ok v
                else Err (Exit_1 (''{"fatal":"missing required environment","var":"'' @ name @ ''"}''))
      | Err _ \<Rightarrow> Err (Exit_1 (''{"fatal":"missing required environment","var":"'' @ name @ ''"}''))
      | Panic \<Rightarrow> Panic)\<close>

definition must_read :: "'addr environment \<Rightarrow> string \<Rightarrow> (bytes, stop) res" where
  \<open>must_read env path =
     map_err (\<lambda>e. Exit_1 (''{"fatal":"cannot read credential file","path":"'' @ path @ ''","err":"'' @ e @ ''"}''))
       (fs_read env path)\<close>

definition profile_from_env :: "'addr environment \<Rightarrow> (Profile, stop) res" where
  \<open>profile_from_env env =
     (case env_var env ''AIAUTH_PROFILE'' of
        Ok v \<Rightarrow>
          map_err (\<lambda>e. Exit_1 (''{"fatal":"invalid profile","detail":"'' @ e @ ''"}'')) (parse_profile v)
      | Err _ \<Rightarrow> Ok default_profile
      | Panic \<Rightarrow> Panic)\<close>

text \<open>Everything before the server is built.\<close>

definition configure :: "'addr environment \<Rightarrow> ('addr Config, stop) res" where
  \<open>configure env =
     rbind (map_err Main_Err (parse_addr env
       (case env_var env ''CRYPTO_ADDR'' of Ok v \<Rightarrow> v | _ \<Rightarrow> ''0.0.0.0:9090''))) (\<lambda>addr.
     rbind (rbind (required_env env ''CRYPTO_CA_FILE'') (must_read env)) (\<lambda>ca.
     rbind (rbind (required_env env ''CRYPTO_CERT_FILE'') (must_read env)) (\<lambda>cert.
     rbind (rbind (required_env env ''CRYPTO_KEY_FILE'') (must_read env)) (\<lambda>key.
     let index_handle = KeyHandle ''blind-index-v1'';
         kek_handle = KeyHandle ''kek-v1'';
         keys = with_key (with_key new_keys index_handle (replicate 32 0x5a)) kek_handle (replicate 32 0xa5)
     in rbind (profile_from_env env) (\<lambda>profile.
        rbind (map_err (\<lambda>refusal.
            Exit_1 (''{"fatal":"profile precondition unmet","detail":"'' @ refusal_display refusal @ ''"}''))
          (check_profile profile sw_attestation)) (\<lambda>_.
        Ok \<lparr>cfg_addr = addr, cfg_ca = ca, cfg_cert = cert, cfg_key = key, cfg_profile = profile,
            cfg_index_key = index_handle, cfg_kek = kek_handle, cfg_keys = keys\<rparr>))))))\<close>

definition guard_of ::
    "hash_order \<Rightarrow>
       ('g, 'k, 'h) crypto_lib \<Rightarrow> 'addr Config \<Rightarrow> 'g Guard" where
  "guard_of order lib cfg =
     new_guard order (software_provider (lib, cfg_keys cfg)) (cfg_index_key cfg) (cfg_kek cfg)"

definition guard_up_line :: "'addr environment \<Rightarrow> 'addr Config \<Rightarrow> string" where
  \<open>guard_up_line env cfg =
     ''{"event":"guard_up","addr":"'' @ addr_display env (cfg_addr cfg) @
     ''","mtls":true,"profile":"'' @ profile_as_str (cfg_profile cfg) @
     ''","provider":"'' @ att_module sw_attestation @
     ''","fips":'' @ (if fips sw_attestation then ''true'' else ''false'') @ ''}''\<close>

text \<open>\<open>main\<close>: how it ends, its lines on standard output, and, once it calls \<open>serve_with_shutdown\<close>, what
  it serves: the configuration and the guard. The future that ends the server prints its line
  when the signal comes, however the server then ends.\<close>

record ('addr, 'g) Run =
  ending :: "(unit, stop) res"
  printed :: "string list"
  serving :: "('addr Config \<times> 'g Guard) option"

definition main ::
    "hash_order \<Rightarrow> ('g, 'k, 'h) crypto_lib \<Rightarrow> 'addr environment \<Rightarrow> ('addr, 'g) Run" where
  \<open>main order lib env =
     (case configure env of
        Ok cfg \<Rightarrow>
          (let guard = guard_of order lib cfg;
               up = guard_up_line env cfg
           in case tls_config env (cfg_cert cfg) (cfg_key cfg) (cfg_ca cfg) of
                Ok _ \<Rightarrow>
                  (let (interrupted, result) = serve_with_shutdown env (cfg_addr cfg)
                   in \<lparr>ending = map_err Main_Err result,
                       printed = (if interrupted then [up, ''{"event":"guard_shutdown"}''] else [up]),
                       serving = Some (cfg, guard)\<rparr>)
              | Err e \<Rightarrow> \<lparr>ending = Err (Main_Err e), printed = [up], serving = None\<rparr>
              | Panic \<Rightarrow> \<lparr>ending = Panic, printed = [up], serving = None\<rparr>)
      | Err s \<Rightarrow> \<lparr>ending = Err s, printed = [], serving = None\<rparr>
      | Panic \<Rightarrow> \<lparr>ending = Panic, printed = [], serving = None\<rparr>)\<close>

section \<open>What a configuration contains\<close>

lemma required_env_Ok: "required_env env name = Ok v \<longleftrightarrow> env_var env name = Ok v \<and> v \<noteq> []"
  by (auto simp: required_env_def split: res.splits if_splits)

lemma must_read_Ok: "must_read env path = Ok b \<longleftrightarrow> fs_read env path = Ok b"
  by (simp add: must_read_def)

lemma profile_from_env_Ok:
  "profile_from_env env = Ok prof \<longleftrightarrow>
     (\<exists>v. env_var env ''AIAUTH_PROFILE'' = Ok v \<and> parse_profile v = Ok prof) \<or>
     (\<exists>e. env_var env ''AIAUTH_PROFILE'' = Err e) \<and> prof = Strict"
  by (auto simp: profile_from_env_def default_profile_def split: res.splits)

lemma sw_attestation_not_fips [simp]: "\<not> fips sw_attestation"
  by (simp add: sw_attestation_def)

lemma configure_OkD:
  assumes "configure env = Ok cfg"
  shows "\<exists>v. env_var env ''CRYPTO_CA_FILE'' = Ok v \<and> v \<noteq> [] \<and> fs_read env v = Ok (cfg_ca cfg)"
    and "\<exists>v. env_var env ''CRYPTO_CERT_FILE'' = Ok v \<and> v \<noteq> [] \<and> fs_read env v = Ok (cfg_cert cfg)"
    and "\<exists>v. env_var env ''CRYPTO_KEY_FILE'' = Ok v \<and> v \<noteq> [] \<and> fs_read env v = Ok (cfg_key cfg)"
    and "profile_from_env env = Ok (cfg_profile cfg)" and "cfg_profile cfg \<noteq> Regulated"
    and "cfg_keys cfg (cfg_kek cfg) = Some (replicate 32 0xa5)"
    and "cfg_keys cfg (cfg_index_key cfg) = Some (replicate 32 0x5a)"
    and "cfg_index_key cfg \<noteq> cfg_kek cfg"
  using assms
  by (auto simp: configure_def rbind_Ok_conv required_env_Ok must_read_Ok check_profile_Ok_iff
      Let_def with_key_def new_keys_def)

lemma serving_configured:
  assumes "serving (main order lib env) = Some (cfg, g)"
  shows "configure env = Ok cfg" and "tls_config env (cfg_cert cfg) (cfg_key cfg) (cfg_ca cfg) = Ok ()"
    and "g = guard_of order lib cfg"
  using assms by (auto simp: main_def Let_def split: res.splits prod.splits)

section \<open>Properties\<close>

text \<open>C22: startup is fail-closed. Whenever the process begins to serve, however it ends, it does so with
  a certificate, a key and a client CA that the environment names and the file system yields and
  that the TLS layer accepted; under the profile whose very name, but for case and surrounding white
  space, the environment gives, or under the strict one when the variable cannot be read (a name that
  is no profile's never serves); never under the regulated profile, whose precondition this provider
  does not meet; and with a fresh guard over the software provider, the default limits and two
  distinct keys, both loaded.\<close>

theorem startup_is_fail_closed:
  assumes "serving (main order lib env) = Some (cfg, g)"
  shows "(\<exists>ca cert key. env_var env ''CRYPTO_CA_FILE'' = Ok ca \<and> fs_read env ca = Ok (cfg_ca cfg) \<and>
      env_var env ''CRYPTO_CERT_FILE'' = Ok cert \<and> fs_read env cert = Ok (cfg_cert cfg) \<and>
      env_var env ''CRYPTO_KEY_FILE'' = Ok key \<and> fs_read env key = Ok (cfg_key cfg) \<and>
      [] \<notin> {ca, cert, key}) \<and>
    tls_config env (cfg_cert cfg) (cfg_key cfg) (cfg_ca cfg) = Ok () \<and>
    ((\<exists>v. env_var env ''AIAUTH_PROFILE'' = Ok v \<and>
        to_ascii_lowercase (trim v) = profile_as_str (cfg_profile cfg)) \<or>
     (\<exists>e. env_var env ''AIAUTH_PROFILE'' = Err e) \<and> cfg_profile cfg = Strict) \<and>
    cfg_profile cfg \<noteq> Regulated \<and>
    provider g = software_provider (lib, cfg_keys cfg) \<and> limiter g = default_limiter order \<and>
    cfg_keys cfg (kek g) = Some (replicate 32 0xa5) \<and>
    cfg_keys cfg (index_key g) = Some (replicate 32 0x5a) \<and> index_key g \<noteq> kek g"
proof -
  note c = serving_configured [OF assms]
  have g: "provider g = software_provider (lib, cfg_keys cfg)" "limiter g = default_limiter order"
    "kek g = cfg_kek cfg" "index_key g = cfg_index_key cfg"
    by (simp_all add: c(3) guard_of_def new_guard_def)
  have "(\<exists>v. env_var env ''AIAUTH_PROFILE'' = Ok v \<and>
        to_ascii_lowercase (trim v) = profile_as_str (cfg_profile cfg)) \<or>
     (\<exists>e. env_var env ''AIAUTH_PROFILE'' = Err e) \<and> cfg_profile cfg = Strict"
    using configure_OkD(4) [OF c(1)] by (simp add: profile_from_env_Ok parse_profile_Ok_iff)
  then show ?thesis
    using configure_OkD(1-3) [OF c(1)] c(2) configure_OkD(5-8) [OF c(1)] unfolding g by (simp, metis)
qed

text \<open>The line that announces the service, mutual TLS included, is printed before the TLS layer has
  seen the credentials: with credentials it rejects, the process still announces itself and
  then ends without ever having served.\<close>

lemma guard_up_precedes_tls:
  assumes "configure env = Ok cfg" and "tls_config env (cfg_cert cfg) (cfg_key cfg) (cfg_ca cfg) = Err e"
  shows "main order lib env = \<lparr>ending = Err (Main_Err e), printed = [guard_up_line env cfg], serving = None\<rparr>"
  using assms by (simp add: main_def Let_def)


section \<open>A sample environment\<close>

definition sample_env :: "string \<Rightarrow> (unit, string) res \<Rightarrow> nat environment" where
  "sample_env prof tls =
     \<lparr>env_var = (\<lambda>name.
        if name = ''AIAUTH_PROFILE'' then (if prof = [] then Err NotUnicode else Ok prof)
        else if name = ''CRYPTO_ADDR'' then Err NotPresent
        else Ok ''/etc/guard.pem''),
      fs_read = (\<lambda>path. Ok (as_bytes path)), parse_addr = (\<lambda>s. Ok (length s)),
      addr_display = (\<lambda>a. ''0.0.0.0:9090''), tls_config = (\<lambda>_ _ _. tls),
      serve_with_shutdown = (\<lambda>_. (True, Err ''connection reset''))\<rparr>"

definition sample_config :: "nat Config" where
  "sample_config =
     \<lparr>cfg_addr = 12, cfg_ca = as_bytes ''/etc/guard.pem'', cfg_cert = as_bytes ''/etc/guard.pem'',
      cfg_key = as_bytes ''/etc/guard.pem'', cfg_profile = Strict,
      cfg_index_key = KeyHandle ''blind-index-v1'', cfg_kek = KeyHandle ''kek-v1'',
      cfg_keys = with_key (with_key new_keys (KeyHandle ''blind-index-v1'') (replicate 32 0x5a))
        (KeyHandle ''kek-v1'') (replicate 32 0xa5)\<rparr>"

lemma sample_configured: "configure (sample_env [] tls) = Ok sample_config"
  by (simp add: configure_def required_env_def must_read_def profile_from_env_def check_profile_def
      default_profile_def sample_env_def sample_config_def Let_def)

lemma sample_configured_strict: "configure (sample_env '' STRICT '' (Ok ())) = Ok sample_config"
proof -
  have "to_ascii_lowercase (trim '' STRICT '') = profile_as_str Strict" by code_simp
  then have "parse_profile '' STRICT '' = Ok Strict" by (simp only: parse_profile_Ok_iff)
  then show ?thesis
    by (simp add: configure_def required_env_def must_read_def profile_from_env_def check_profile_def
        sample_env_def sample_config_def Let_def)
qed

lemma sample_main:
  "main id sample_lib (sample_env '' STRICT '' (Ok ())) =
     \<lparr>ending = Err (Main_Err ''connection reset''),
      printed = [guard_up_line (sample_env '' STRICT '' (Ok ())) sample_config, ''{\"event\":\"guard_shutdown\"}''],
      serving = Some (sample_config, guard_of id sample_lib sample_config)\<rparr>"
  by (simp add: main_def sample_configured_strict) (simp add: sample_env_def)

lemma sample_serving: "serving (main id sample_lib (sample_env '' STRICT '' (Ok ()))) =
    Some (sample_config, guard_of id sample_lib sample_config)"
  by (simp only: sample_main Run.simps)

theorem startup_is_fail_closed_witness:
  "let run = main id sample_lib (sample_env '' STRICT '' (Ok ())) in
     ending run = Err (Main_Err ''connection reset'') \<and> length (printed run) = 2 \<and>
     (\<exists>cfg g. serving run = Some (cfg, g) \<and> cfg_profile cfg = Strict \<and>
        cfg_keys cfg (kek g) = Some (replicate 32 0xa5))"
proof -
  have "cfg_keys sample_config (kek (guard_of id sample_lib sample_config)) = Some (replicate 32 0xa5)"
    using startup_is_fail_closed [OF sample_serving] by blast
  then show ?thesis unfolding Let_def sample_main by (simp add: sample_config_def)
qed

lemma guard_up_precedes_tls_witness:
  "main id sample_lib (sample_env [] (Err ''bad certificate'')) =
     \<lparr>ending = Err (Main_Err ''bad certificate''),
      printed = [guard_up_line (sample_env [] (Err ''bad certificate'')) sample_config], serving = None\<rparr>"
  by (rule guard_up_precedes_tls [OF sample_configured]) (simp add: sample_env_def)


end
