(* ===== verification/Secret_Buf.thy ===== *)
theory Secret_Buf
  imports Prelude
begin

text \<open>
  \<open>SecretBuf\<close>, \<open>crypto/src/lib.rs\<close>: the buffer, its accessors and its \<open>Debug\<close> form. That the
  memory is wiped on drop is the \<open>zeroize\<close> crate's and below this model.
\<close>

record SecretBuf =
  secret_bytes :: bytes

definition secret_new :: "bytes \<Rightarrow> SecretBuf" where
  "secret_new bs = \<lparr>secret_bytes = bs\<rparr>"

definition secret_expose :: "SecretBuf \<Rightarrow> bytes" where
  "secret_expose s = secret_bytes s"

definition secret_len :: "SecretBuf \<Rightarrow> nat" where
  "secret_len s = length (secret_bytes s)"

definition secret_is_empty :: "SecretBuf \<Rightarrow> bool" where
  "secret_is_empty s \<longleftrightarrow> secret_bytes s = []"

definition secret_debug :: "SecretBuf \<Rightarrow> string" where
  "secret_debug s = ''SecretBuf(len='' @ decimal (secret_len s) @ '', contents hidden)''"

text \<open>The \<open>Debug\<close> form tells the length and nothing else.\<close>

lemma secret_debug_tells_only_the_length:
  "secret_debug (secret_new a) = secret_debug (secret_new b) \<longleftrightarrow> length a = length b"
  by (simp add: secret_debug_def secret_len_def secret_new_def)

lemma secret_accessors:
  "secret_expose (secret_new bs) = bs" "secret_len (secret_new bs) = length bs"
  "secret_is_empty s \<longleftrightarrow> secret_len s = 0"
  by (simp_all add: secret_expose_def secret_new_def secret_len_def secret_is_empty_def)

end
