(* ===== verification/Limits_Tests.thy ===== *)
theory Limits_Tests
  imports Rate_Limiter_Exact Rate_Limiter_Properties
begin

text \<open>
  The tests of \<open>crypto/src/limits.rs\<close> on the model. A test is the list of what it does to the
  limiter and its clock: calls with the answer it asserts, and moves of the clock. A test that
  counts instead of asserting call by call is written with \<open>run_calls\<close>. The proofs evaluate the
  integer limiter of \<open>Rate_Limiter_Exact\<close>.
\<close>

section \<open>The clock of the tests\<close>

text \<open>\<open>base\<close> is the \<open>Instant::now()\<close> of its construction, \<open>offset\<close> a \<open>Duration\<close> in nanoseconds.\<close>

record FakeClock =
  base :: instant
  offset :: nat

definition fake_clock_new :: "instant \<Rightarrow> FakeClock" where
  "fake_clock_new now = \<lparr>base = now, offset = 0\<rparr>"

definition fake_clock_now :: "FakeClock \<Rightarrow> instant" where
  "fake_clock_now clock = base clock + offset clock"

text \<open>\<open>SharedClock\<close> is a second handle on the same clock.\<close>

definition shared_clock_now :: "FakeClock \<Rightarrow> instant" where
  "shared_clock_now clock = fake_clock_now clock"

definition test_limiter ::
    "hash_order \<Rightarrow> instant \<Rightarrow> u32 \<Rightarrow> rat \<Rightarrow> RateLimiter \<times> FakeClock" where
  "test_limiter order now cap refill = (new_limiter cap refill order, fake_clock_new now)"

definition advance :: "FakeClock \<Rightarrow> nat \<Rightarrow> FakeClock" where
  "advance clock d = clock\<lparr>offset := offset clock + d\<rparr>"

text \<open>\<open>Duration::from_secs\<close>.\<close>

definition from_secs :: "nat \<Rightarrow> nat" where
  "from_secs s = s * 1000000000"

section \<open>Running a test\<close>

datatype test_action =
    Allowed string string
  | Refused string string
  | Advance nat

text \<open>The state after the test, \<open>None\<close> if an assertion fails.\<close>

fun run_test :: "test_action list \<Rightarrow> RateLimiter \<times> FakeClock \<Rightarrow> (RateLimiter \<times> FakeClock) option" where
  "run_test [] s = Some s"
| "run_test (Allowed tenant op # rest) (l, c) =
     (let (ok, l) = allow l (shared_clock_now c) tenant op
      in if ok then run_test rest (l, c) else None)"
| "run_test (Refused tenant op # rest) (l, c) =
     (let (ok, l) = allow l (shared_clock_now c) tenant op
      in if ok then None else run_test rest (l, c))"
| "run_test (Advance d # rest) (l, c) = run_test rest (l, advance c d)"

section \<open>The tests\<close>

definition a_burst_within_capacity_is_allowed :: "hash_order \<Rightarrow> instant \<Rightarrow> bool" where
  "a_burst_within_capacity_is_allowed order now \<longleftrightarrow>
     run_test (replicate 5 (Allowed ''t1'' ''decrypt_field''))
       (test_limiter order now 5 1) \<noteq> None"

definition exceeding_capacity_is_refused :: "hash_order \<Rightarrow> instant \<Rightarrow> bool" where
  "exceeding_capacity_is_refused order now \<longleftrightarrow>
     run_test (replicate 5 (Allowed ''t1'' ''decrypt_field'') @ [Refused ''t1'' ''decrypt_field''])
       (test_limiter order now 5 1) \<noteq> None"

definition tokens_refill_over_time :: "hash_order \<Rightarrow> instant \<Rightarrow> bool" where
  "tokens_refill_over_time order now \<longleftrightarrow>
     run_test
       [Allowed ''t1'' ''decrypt_field'', Allowed ''t1'' ''decrypt_field'',
        Refused ''t1'' ''decrypt_field'', Advance (from_secs 1), Allowed ''t1'' ''decrypt_field'']
       (test_limiter order now 2 1) \<noteq> None"

definition refill_never_exceeds_capacity :: "hash_order \<Rightarrow> instant \<Rightarrow> bool" where
  "refill_never_exceeds_capacity order now \<longleftrightarrow>
     run_test
       ([Allowed ''t1'' ''op'', Advance (from_secs 3600)] @
        replicate 3 (Allowed ''t1'' ''op'') @ [Refused ''t1'' ''op''])
       (test_limiter order now 3 100) \<noteq> None"

definition one_tenant_cannot_exhaust_anothers_budget :: "hash_order \<Rightarrow> instant \<Rightarrow> bool" where
  "one_tenant_cannot_exhaust_anothers_budget order now \<longleftrightarrow>
     run_test
       [Allowed ''noisy'' ''op'', Allowed ''noisy'' ''op'', Refused ''noisy'' ''op'',
        Allowed ''quiet'' ''op'']
       (test_limiter order now 2 1) \<noteq> None"

definition operations_are_budgeted_separately :: "hash_order \<Rightarrow> instant \<Rightarrow> bool" where
  "operations_are_budgeted_separately order now \<longleftrightarrow>
     run_test
       [Allowed ''t1'' ''decrypt_field'', Refused ''t1'' ''decrypt_field'',
        Allowed ''t1'' ''blind_index'']
       (test_limiter order now 1 1) \<noteq> None"

text \<open>The calls of a test that asks once for each of \<open>n\<close> invented tenants.\<close>

definition invented :: "string \<Rightarrow> string \<Rightarrow> FakeClock \<Rightarrow> nat \<Rightarrow> call list" where
  "invented prefix op c n =
     map (\<lambda>i. (shared_clock_now c, prefix @ decimal i, op)) [0..<n]"

definition bucket_map_stays_bounded_against_invented_tenants :: "hash_order \<Rightarrow> instant \<Rightarrow> bool" where
  "bucket_map_stays_bounded_against_invented_tenants order now =
     (let (l, c) = test_limiter order now 4 1000;
          l = l\<lparr>max_buckets := 16\<rparr>;
          l = snd (run_calls l (invented ''tenant-'' ''op'' c 500))
      in length (buckets l) \<le> 16)"

definition a_global_ceiling_binds_a_caller_inventing_tenants :: "hash_order \<Rightarrow> instant \<Rightarrow> bool" where
  "a_global_ceiling_binds_a_caller_inventing_tenants order now =
     (let (l, c) = test_limiter order now 2 0;
          oks = fst (run_calls l (invented ''invented-'' ''decrypt_field'' c 500))
      in length (filter id oks) = 100)"

section \<open>Evaluating a test on integers\<close>

text \<open>The same test on the integer limiter, with the second the clock shows.\<close>

fun nat_test :: "nat \<Rightarrow> nat \<Rightarrow> test_action list \<Rightarrow> NatLimiter \<Rightarrow> nat \<Rightarrow> bool" where
  "nat_test cap k [] nl s \<longleftrightarrow> True"
| "nat_test cap k (Allowed tenant op # rest) nl s \<longleftrightarrow>
     (let (ok, nl) = nat_allow cap k nl s tenant op in ok \<and> nat_test cap k rest nl s)"
| "nat_test cap k (Refused tenant op # rest) nl s \<longleftrightarrow>
     (let (ok, nl) = nat_allow cap k nl s tenant op in \<not> ok \<and> nat_test cap k rest nl s)"
| "nat_test cap k (Advance d # rest) nl s \<longleftrightarrow> nat_test cap k rest nl (s + d div 1000000000)"

fun whole_action :: "test_action \<Rightarrow> bool" where
  "whole_action (Advance d) \<longleftrightarrow> d mod 1000000000 = 0"
| "whole_action _ \<longleftrightarrow> True"

lemma nat_test_sound:
  assumes "exact_limiter (base c) cap k l nl" and "50 * cap \<le> 2 ^ 53"
    and "length (buckets l) + length test \<le> max_buckets l"
    and "offset c = s * 1000000000" and "list_all whole_action test" and "nat_test cap k test nl s"
  shows "run_test test (l, c) \<noteq> None"
  using assms
proof (induction test arbitrary: l nl c s)
  case (Cons a test)
  have now: "shared_clock_now c = base c + s * 1000000000"
    by (simp add: shared_clock_now_def fake_clock_now_def Cons.prems(4))
  have short: "length (buckets l) < max_buckets l" using Cons.prems(3) by simp
  note step = exact_allow [OF Cons.prems(1,2) short]
  have whole: "list_all whole_action test" using Cons.prems(5) by simp
  have IH: "run_test test (snd (allow l (base c + s * 1000000000) tenant op), c) \<noteq> None"
    if "nat_test cap k test (snd (nat_allow cap k nl s tenant op)) s" for tenant op
    using allow_length [OF short, of "base c + s * 1000000000" tenant op] Cons.prems(3) that
    by (intro Cons.IH [OF step(2) Cons.prems(2) _ Cons.prems(4) whole]) simp_all
  show ?case
  proof (cases a)
    case (Allowed tenant op)
    then show ?thesis
      using IH [of tenant op] step(1) [of s tenant op] Cons.prems(6) by (simp add: now split_beta)
  next
    case (Refused tenant op)
    then show ?thesis
      using IH [of tenant op] step(1) [of s tenant op] Cons.prems(6) by (simp add: now split_beta)
  next
    case (Advance d)
    then have "d = d div 1000000000 * 1000000000" using Cons.prems(5) by auto
    then have "offset (advance c d) = (s + d div 1000000000) * 1000000000"
      using Cons.prems(4) by (simp add: advance_def)
    moreover have "base (advance c d) = base c" by (simp add: advance_def)
    ultimately show ?thesis
      using Cons.IH [of "advance c d" l nl "s + d div 1000000000"] Cons.prems Advance by simp
  qed
qed simp

lemma test_passes:
  assumes "50 * k \<le> 2 ^ 53" and "length test \<le> 10000"
    and "list_all whole_action test" and "nat_test (unat cap) k test nat_empty 0"
  shows "run_test test (test_limiter order now cap (of_nat k)) \<noteq> None"
proof -
  have "exact_limiter (base (fake_clock_new now)) (unat cap) k (new_limiter cap (of_nat k) order) nat_empty"
    by (rule exact_new [OF assms(1)])
  then show ?thesis
    unfolding test_limiter_def
    by (rule nat_test_sound [OF _ u32_le_53(2)]) (use assms(2-4) in \<open>simp_all add: fake_clock_new_def\<close>)
qed

lemma from_secs_whole [simp]: "from_secs s div 1000000000 = s" "from_secs s mod 1000000000 = 0"
  by (simp_all add: from_secs_def)

lemma replicate_small:
  "replicate 3 x = [x, x, x]" "replicate 5 x = [x, x, x, x, x]"
  by (simp_all add: eval_nat_numeral)

lemmas nat_test_simps = nat_allow_def nat_take_def nat_refill_def nat_entry_def nat_empty_def
  replicate_small

lemma admitted_filter:
  "\<forall>(t, tenant, o') \<in> set cs. o' = op \<Longrightarrow>
     length (filter id (fst (run_calls l cs))) = admitted op l cs"
  by (induction cs arbitrary: l) (auto simp: split_beta)

lemma distinct_invented: "distinct (map (fst \<circ> snd) (invented prefix op c n))"
  by (simp add: invented_def distinct_map o_def inj_on_def)

section \<open>All tests pass\<close>

lemma scripted_tests_pass:
  "a_burst_within_capacity_is_allowed order now"
  "exceeding_capacity_is_refused order now"
  "tokens_refill_over_time order now"
  "refill_never_exceeds_capacity order now"
  "one_tenant_cannot_exhaust_anothers_budget order now"
  "operations_are_budgeted_separately order now"
  unfolding a_burst_within_capacity_is_allowed_def exceeding_capacity_is_refused_def
    tokens_refill_over_time_def refill_never_exceeds_capacity_def
    one_tenant_cannot_exhaust_anothers_budget_def operations_are_budgeted_separately_def
  by (rule test_passes [of 1, unfolded of_nat_1] test_passes [of 100, unfolded of_nat_numeral],
      (simp_all add: nat_test_simps)[4])+

lemma bounded_map_test:
  assumes "\<forall>xs. mset (order xs) = mset xs"
  shows "bucket_map_stays_bounded_against_invented_tenants order now"
proof -
  define l where "l = (new_limiter 4 1000 order)\<lparr>max_buckets := 16\<rparr>"
  have "limiter_ok (new_limiter 4 1000 order)" using assms by (intro limiter_ok_new) simp_all
  then have "limiter_ok l" by (simp add: l_def limiter_ok_def)
  then have "limiter_ok (snd (run_calls l cs))" for cs by (rule limiter_ok_run)
  then have "length (buckets (snd (run_calls l cs))) \<le> max_buckets (snd (run_calls l cs))" for cs
    by (simp add: limiter_ok_def)
  moreover have "max_buckets (snd (run_calls l cs)) = 16" for cs
    using same_config_run [of l cs] by (simp add: same_config_def l_def)
  ultimately show ?thesis
    by (simp add: bucket_map_stays_bounded_against_invented_tenants_def test_limiter_def l_def Let_def)
qed

lemma ceiling_test:
  assumes "\<forall>xs. mset (order xs) = mset xs"
  shows "a_global_ceiling_binds_a_caller_inventing_tenants order now"
proof -
  define cs where "cs = invented ''invented-'' ''decrypt_field'' (fake_clock_new now) 500"
  have op: "\<forall>(t, tenant, o') \<in> set cs. o' = ''decrypt_field''" by (auto simp: cs_def invented_def)
  have d: "distinct (map (fst \<circ> snd) cs)" unfolding cs_def by (rule distinct_invented)
  have "admitted ''decrypt_field'' (new_limiter 2 0 order) cs = min (length cs) (50 * unat (2 :: u32))"
    by (rule invented_tenants_admitted [OF assms _ op d]) simp
  moreover have "length cs = 500" by (simp add: cs_def invented_def)
  ultimately show ?thesis
    by (simp add: a_global_ceiling_binds_a_caller_inventing_tenants_def test_limiter_def
        admitted_filter [OF op] cs_def [symmetric])
qed

definition limits_tests :: "(hash_order \<Rightarrow> instant \<Rightarrow> bool) list" where
  "limits_tests =
     [a_burst_within_capacity_is_allowed, exceeding_capacity_is_refused, tokens_refill_over_time,
      refill_never_exceeds_capacity, one_tenant_cannot_exhaust_anothers_budget,
      operations_are_budgeted_separately, bucket_map_stays_bounded_against_invented_tenants,
      a_global_ceiling_binds_a_caller_inventing_tenants]"

text \<open>C26: every test of the limiter passes, on doubles, from every starting instant and for every
  order in which its hash maps iterate.\<close>

theorem limits_tests_pass:
  assumes "\<forall>xs. mset (order xs) = mset xs"
  shows "list_all (\<lambda>test. test order now) limits_tests"
  by (simp add: limits_tests_def scripted_tests_pass bounded_map_test ceiling_test assms)

theorem limits_tests_pass_witness:
  "list_all (\<lambda>test. test rev 42) limits_tests"
  by (rule limits_tests_pass) simp

end
