(* ===== verification/Gate_Tests.thy ===== *)
theory Gate_Tests
  imports Context_Gate Profile
begin

text \<open>
  The tests of \<open>crypto/src/context.rs\<close> and \<open>crypto/src/profile.rs\<close> on the model: one executable
  proposition per test, the conjunction of its assertions. \<open>unwrap_err\<close> and \<open>unwrap\<close> fail the
  test on the other variant.
\<close>

section \<open>The gate\<close>

definition err_code :: "(unit, Status) res \<Rightarrow> Code option" where
  "err_code r = (case r of Err e \<Rightarrow> Some (code e) | _ \<Rightarrow> None)"

definition test_ctx :: "string \<Rightarrow> string \<Rightarrow> Purpose \<Rightarrow> RequestContext" where
  "test_ctx tenant subject purp =
     \<lparr>tenant_id = tenant, subject_id = subject, purpose = purpose_as_i32 purp, request_id = ''req-1''\<rparr>"

definition missing_context_is_rejected :: bool where
  "missing_context_is_rejected \<longleftrightarrow>
     err_code (validate None PasskeyLogin False) = Some InvalidArgument"

definition unspecified_purpose_is_always_rejected :: bool where
  "unspecified_purpose_is_always_rejected \<longleftrightarrow>
     (let c = test_ctx ''t1'' ''s1'' Purpose_Unspecified
      in err_code (validate (Some c) PasskeyLogin False) = Some InvalidArgument)"

definition wrong_purpose_is_permission_denied :: bool where
  "wrong_purpose_is_permission_denied \<longleftrightarrow>
     (let c = test_ctx ''t1'' ''s1'' PasskeyLogin
      in err_code (validate (Some c) RowDecrypt True) = Some PermissionDenied)"

definition empty_tenant_is_rejected :: bool where
  "empty_tenant_is_rejected \<longleftrightarrow>
     (let c = test_ctx [] ''s1'' BlindIndex
      in err_code (validate (Some c) BlindIndex False) = Some InvalidArgument)"

definition missing_subject_rejected_only_when_required :: bool where
  "missing_subject_rejected_only_when_required \<longleftrightarrow>
     (let c = test_ctx ''t1'' [] RowEncrypt
      in \<not> is_ok (validate (Some c) RowEncrypt True) \<and> is_ok (validate (Some c) RowEncrypt False))"

definition matching_purpose_passes :: bool where
  "matching_purpose_passes \<longleftrightarrow>
     (let c = test_ctx ''t1'' ''s1'' RowDecrypt in is_ok (validate (Some c) RowDecrypt True))"

definition missing_request_id_is_rejected :: bool where
  "missing_request_id_is_rejected \<longleftrightarrow>
     (let c = (test_ctx ''t1'' ''s1'' BlindIndex)\<lparr>request_id := []\<rparr>
      in err_code (validate (Some c) BlindIndex False) = Some InvalidArgument)"

section \<open>Profiles\<close>

definition test_attestation :: "bool \<Rightarrow> ProviderAttestation" where
  "test_attestation is_fips =
     \<lparr>att_module = (if is_fips then ''aws-lc-fips'' else ''RustCrypto (hmac, sha2)''),
      att_version = ''test'',
      fips = is_fips,
      certificate = (if is_fips then Some ''4816'' else None)\<rparr>"

definition the_default_profile_is_strict :: bool where
  "the_default_profile_is_strict \<longleftrightarrow> default_profile = Strict"

definition known_names_parse_case_insensitively :: bool where
  "known_names_parse_case_insensitively \<longleftrightarrow>
     parse_profile ''strict'' = Ok Strict \<and> parse_profile '' Regulated '' = Ok Regulated \<and>
     parse_profile ''LEGACY'' = Ok Legacy"

definition an_unknown_profile_is_an_error_not_a_fallback :: bool where
  "an_unknown_profile_is_an_error_not_a_fallback \<longleftrightarrow>
     \<not> is_ok (parse_profile ''strickt'') \<and> \<not> is_ok (parse_profile [])"

definition regulated_refuses_an_unvalidated_provider :: bool where
  "regulated_refuses_an_unvalidated_provider \<longleftrightarrow>
     (case check_profile Regulated (test_attestation False) of
        Err (ProviderNotValidated prof module) \<Rightarrow>
          sublist ''not validated'' (refusal_display (ProviderNotValidated prof module))
      | _ \<Rightarrow> False)"

definition regulated_accepts_a_validated_provider :: bool where
  "regulated_accepts_a_validated_provider \<longleftrightarrow>
     is_ok (check_profile Regulated (test_attestation True))"

definition other_profiles_do_not_require_validation :: bool where
  "other_profiles_do_not_require_validation \<longleftrightarrow>
     list_all (\<lambda>p. is_ok (check_profile p (test_attestation False))) [Strict, Balanced, Legacy]"

section \<open>All tests pass\<close>

lemma gate_tests:
  missing_context_is_rejected unspecified_purpose_is_always_rejected
  wrong_purpose_is_permission_denied empty_tenant_is_rejected
  missing_subject_rejected_only_when_required matching_purpose_passes
  missing_request_id_is_rejected
  by (simp_all add: missing_context_is_rejected_def unspecified_purpose_is_always_rejected_def
      wrong_purpose_is_permission_denied_def empty_tenant_is_rejected_def
      missing_subject_rejected_only_when_required_def matching_purpose_passes_def
      missing_request_id_is_rejected_def test_ctx_def err_code_def validate_def get_purpose_as_i32)

lemma trim_free:
  assumes "\<forall>w \<in> set white_space. \<forall>c \<in> set w. c \<noteq> hd s \<and> c \<noteq> last s" and "s \<noteq> []"
  shows "trim s = s"
  using trim_surrounded [of "[]" "[]" s] assms by simp

lemma parse_tests:
  known_names_parse_case_insensitively an_unknown_profile_is_an_error_not_a_fallback
proof -
  have "trim ''strict'' = ''strict''" "trim ''LEGACY'' = ''LEGACY''" "trim ''strickt'' = ''strickt''"
    by (rule trim_free; simp add: white_space_def)+
  moreover have "trim '' Regulated '' = ''Regulated''"
    using trim_surrounded [of "['' '']" "['' '']" "''Regulated''"] by (simp add: white_space_def)
  moreover have "trim [] = []"
    by (simp add: trim_def trim_start_def trim_end_def strip_leading.simps [of _ "[]"] leading_def
        white_space_def)
  moreover have "to_ascii_lowercase ''strict'' = ''strict''" "to_ascii_lowercase ''LEGACY'' = ''legacy''"
    "to_ascii_lowercase ''Regulated'' = ''regulated''" "to_ascii_lowercase ''strickt'' = ''strickt''"
    "to_ascii_lowercase [] = []"
    by code_simp+
  ultimately show known_names_parse_case_insensitively an_unknown_profile_is_an_error_not_a_fallback
    by (simp_all add: known_names_parse_case_insensitively_def parse_profile_def
        an_unknown_profile_is_an_error_not_a_fallback_def)
qed

lemma refusal_names_the_fix: regulated_refuses_an_unvalidated_provider
  by code_simp

lemma profile_tests:
  the_default_profile_is_strict regulated_accepts_a_validated_provider
  other_profiles_do_not_require_validation
  by (simp_all add: the_default_profile_is_strict_def default_profile_def
      regulated_accepts_a_validated_provider_def
      other_profiles_do_not_require_validation_def check_profile_def test_attestation_def)

definition gate_and_profile_tests :: "bool list" where
  "gate_and_profile_tests =
     [missing_context_is_rejected, unspecified_purpose_is_always_rejected,
      wrong_purpose_is_permission_denied, empty_tenant_is_rejected,
      missing_subject_rejected_only_when_required, matching_purpose_passes,
      missing_request_id_is_rejected, the_default_profile_is_strict,
      known_names_parse_case_insensitively, an_unknown_profile_is_an_error_not_a_fallback,
      regulated_refuses_an_unvalidated_provider, regulated_accepts_a_validated_provider,
      other_profiles_do_not_require_validation]"

text \<open>Every test of the gate and of the profiles passes.\<close>

lemma gate_and_profile_tests_pass: "list_all (\<lambda>test. test) gate_and_profile_tests"
  by (simp add: gate_and_profile_tests_def gate_tests parse_tests profile_tests refusal_names_the_fix)

end
