(* ===== verification/Webauthn_Tests.thy ===== *)
theory Webauthn_Tests
  imports Webauthn
begin

text \<open>
  The tests of \<open>crypto/src/webauthn.rs\<close> on the model, one executable proposition per test. What
  the tests use of the crates beside \<open>verify\<close> itself, the authenticator's half, is the parameter
  \<open>auth\<close>; the randomly generated keys are arguments. \<open>honest_crates\<close> states the documented
  behaviour of the crates that the tests rely on, \<open>unforged\<close> that one signature is not also one
  for another key or message.
\<close>

section \<open>The authenticator\<close>

text \<open>\<open>URL_SAFE_NO_PAD.encode\<close>, \<open>verifying_key().to_encoded_point(false)\<close>, \<open>SigningKey::sign\<close>
  and \<open>Signature::to_der\<close>.\<close>

record ('k, 's) signing_lib =
  b64url_encode :: "bytes \<Rightarrow> string"
  sk_point :: "'k \<Rightarrow> bytes"
  sk_sign :: "'k \<Rightarrow> bytes \<Rightarrow> 's"
  sig_to_der :: "'s \<Rightarrow> bytes"

definition test_rp :: string where
  "test_rp = ''auth.example.com''"

definition test_origin :: string where
  "test_origin = ''https://auth.example.com''"

record 'k Fixture =
  fixture_key :: 'k
  fixture_pubkey :: bytes
  fixture_challenge :: bytes

definition fixture :: "('k, 's) signing_lib \<Rightarrow> 'k \<Rightarrow> 'k Fixture" where
  "fixture auth key =
     \<lparr>fixture_key = key, fixture_pubkey = sk_point auth key, fixture_challenge = replicate 32 9\<rparr>"

text \<open>The JSON text with the three members, its quotation marks written as characters.\<close>

definition json_member :: "string \<Rightarrow> string \<Rightarrow> string" where
  "json_member name v = [CHR 0x22] @ name @ [CHR 0x22] @ '':'' @ [CHR 0x22] @ v @ [CHR 0x22]"

definition json_text :: "string \<Rightarrow> string \<Rightarrow> string \<Rightarrow> string" where
  "json_text ty challenge origin =
     [CHR 0x7B] @ json_member ''type'' ty @ '','' @ json_member ''challenge'' challenge @ '','' @
     json_member ''origin'' origin @ [CHR 0x7D]"

definition client_data :: "('k, 's) signing_lib \<Rightarrow> string \<Rightarrow> bytes \<Rightarrow> string \<Rightarrow> bytes" where
  "client_data auth ty challenge origin = as_bytes (json_text ty (b64url_encode auth challenge) origin)"

definition auth_data :: "('j, 'v, 's) webauthn_lib \<Rightarrow> string \<Rightarrow> u8 \<Rightarrow> u32 \<Rightarrow> bytes" where
  "auth_data lib rp flags count =
     sha256 lib (as_bytes rp) @ [flags] @ u32_to_be_bytes count"

definition sign ::
    "('j, 'v, 's) webauthn_lib \<Rightarrow> ('k, 's) signing_lib \<Rightarrow> 'k Fixture \<Rightarrow> bytes \<Rightarrow> bytes \<Rightarrow> bytes" where
  "sign lib auth f ad cd =
     (let msg = ad @ sha256 lib cd in sig_to_der auth (sk_sign auth (fixture_key f) msg))"

definition expectations :: "'k Fixture \<Rightarrow> u32 \<Rightarrow> Expectations" where
  "expectations f stored =
     \<lparr>exp_rp_id = test_rp, exp_origin = test_origin, exp_challenge = fixture_challenge f,
      stored_sign_count = stored\<rparr>"

section \<open>The tests\<close>

type_synonym ('j, 'v, 's, 'k) webauthn_test =
  "('j, 'v, 's) webauthn_lib \<Rightarrow> ('k, 's) signing_lib \<Rightarrow> 'k \<Rightarrow> 'k \<Rightarrow> bool"

definition a_genuine_assertion_verifies :: "('j, 'v, 's, 'k) webauthn_test" where
  "a_genuine_assertion_verifies lib auth key _ \<longleftrightarrow>
     (let f = fixture auth key;
          cd = client_data auth ''webauthn.get'' (fixture_challenge f) test_origin;
          ad = auth_data lib test_rp flag_up 5;
          sg = sign lib auth f ad cd
      in verify lib (expectations f 4) (fixture_pubkey f) ad cd sg = Ok \<lparr>verified_sign_count = 5\<rparr>)"

definition a_lookalike_origin_is_refused :: "('j, 'v, 's, 'k) webauthn_test" where
  "a_lookalike_origin_is_refused lib auth key _ \<longleftrightarrow>
     (let f = fixture auth key;
          cd = client_data auth ''webauthn.get'' (fixture_challenge f) ''https://auth.exarnple.com'';
          ad = auth_data lib test_rp flag_up 5;
          sg = sign lib auth f ad cd
      in verify lib (expectations f 4) (fixture_pubkey f) ad cd sg = Err OriginMismatch)"

definition a_replayed_challenge_is_refused :: "('j, 'v, 's, 'k) webauthn_test" where
  "a_replayed_challenge_is_refused lib auth key _ \<longleftrightarrow>
     (let f = fixture auth key;
          cd = client_data auth ''webauthn.get'' (replicate 32 1) test_origin;
          ad = auth_data lib test_rp flag_up 5;
          sg = sign lib auth f ad cd
      in verify lib (expectations f 4) (fixture_pubkey f) ad cd sg = Err ChallengeMismatch)"

definition a_registration_response_cannot_be_used_to_log_in :: "('j, 'v, 's, 'k) webauthn_test" where
  "a_registration_response_cannot_be_used_to_log_in lib auth key _ \<longleftrightarrow>
     (let f = fixture auth key;
          cd = client_data auth ''webauthn.create'' (fixture_challenge f) test_origin;
          ad = auth_data lib test_rp flag_up 5;
          sg = sign lib auth f ad cd
      in verify lib (expectations f 4) (fixture_pubkey f) ad cd sg = Err WrongType)"

definition an_assertion_for_another_relying_party_is_refused :: "('j, 'v, 's, 'k) webauthn_test" where
  "an_assertion_for_another_relying_party_is_refused lib auth key _ \<longleftrightarrow>
     (let f = fixture auth key;
          cd = client_data auth ''webauthn.get'' (fixture_challenge f) test_origin;
          ad = auth_data lib ''other.example.com'' flag_up 5;
          sg = sign lib auth f ad cd
      in verify lib (expectations f 4) (fixture_pubkey f) ad cd sg = Err RpIdMismatch)"

definition absent_user_presence_is_refused :: "('j, 'v, 's, 'k) webauthn_test" where
  "absent_user_presence_is_refused lib auth key _ \<longleftrightarrow>
     (let f = fixture auth key;
          cd = client_data auth ''webauthn.get'' (fixture_challenge f) test_origin;
          ad = auth_data lib test_rp 0 5;
          sg = sign lib auth f ad cd
      in verify lib (expectations f 4) (fixture_pubkey f) ad cd sg = Err UserNotPresent)"

definition a_regressing_sign_count_suggests_a_clone :: "('j, 'v, 's, 'k) webauthn_test" where
  "a_regressing_sign_count_suggests_a_clone lib auth key _ \<longleftrightarrow>
     (let f = fixture auth key;
          cd = client_data auth ''webauthn.get'' (fixture_challenge f) test_origin;
          ad = auth_data lib test_rp flag_up 3;
          sg = sign lib auth f ad cd
      in verify lib (expectations f 7) (fixture_pubkey f) ad cd sg = Err SignCountRegression)"

definition a_zero_sign_count_is_accepted :: "('j, 'v, 's, 'k) webauthn_test" where
  "a_zero_sign_count_is_accepted lib auth key _ \<longleftrightarrow>
     (let f = fixture auth key;
          cd = client_data auth ''webauthn.get'' (fixture_challenge f) test_origin;
          ad = auth_data lib test_rp flag_up 0;
          sg = sign lib auth f ad cd
      in is_ok (verify lib (expectations f 9) (fixture_pubkey f) ad cd sg))"

definition another_credential_cannot_sign_for_this_one :: "('j, 'v, 's, 'k) webauthn_test" where
  "another_credential_cannot_sign_for_this_one lib auth key key' \<longleftrightarrow>
     (let f = fixture auth key;
          impostor = fixture auth key';
          cd = client_data auth ''webauthn.get'' (fixture_challenge f) test_origin;
          ad = auth_data lib test_rp flag_up 5;
          sg = sign lib auth impostor ad cd
      in verify lib (expectations f 4) (fixture_pubkey f) ad cd sg = Err BadSignature)"

definition tampered_authenticator_data_breaks_the_signature :: "('j, 'v, 's, 'k) webauthn_test" where
  "tampered_authenticator_data_breaks_the_signature lib auth key _ \<longleftrightarrow>
     (let f = fixture auth key;
          cd = client_data auth ''webauthn.get'' (fixture_challenge f) test_origin;
          ad = auth_data lib test_rp flag_up 5;
          sg = sign lib auth f ad cd;
          tampered = ad @ [0xff]
      in verify lib (expectations f 4) (fixture_pubkey f) tampered cd sg = Err BadSignature)"

definition truncated_authenticator_data_is_rejected_not_panicked :: "('j, 'v, 's, 'k) webauthn_test" where
  "truncated_authenticator_data_is_rejected_not_panicked lib auth key _ \<longleftrightarrow>
     (let f = fixture auth key;
          cd = client_data auth ''webauthn.get'' (fixture_challenge f) test_origin
      in verify lib (expectations f 4) (fixture_pubkey f) (replicate 10 0) cd (replicate 64 0) =
         Err MalformedAuthenticatorData)"

definition garbage_client_data_is_rejected_not_panicked :: "('j, 'v, 's, 'k) webauthn_test" where
  "garbage_client_data_is_rejected_not_panicked lib auth key _ \<longleftrightarrow>
     (let f = fixture auth key
      in verify lib (expectations f 4) (fixture_pubkey f) (auth_data lib test_rp flag_up 5)
           (as_bytes ''not json'') (replicate 64 0) = Err MalformedClientData)"

section \<open>What the crates promise\<close>

text \<open>A text that stands for itself inside a JSON string: no quotation mark, no backslash, no
  control character.\<close>

definition json_plain :: "string \<Rightarrow> bool" where
  "json_plain s \<longleftrightarrow> list_all (\<lambda>c. of_char c \<ge> (32 :: nat) \<and> c \<noteq> CHR 0x22 \<and> c \<noteq> CHR 0x5C) s"

definition honest_crates :: "('j, 'v, 's) webauthn_lib \<Rightarrow> ('k, 's) signing_lib \<Rightarrow> bool" where
  "honest_crates lib auth \<longleftrightarrow>
     (\<forall>ty ch origin. json_plain ty \<longrightarrow> json_plain ch \<longrightarrow> json_plain origin \<longrightarrow>
        (\<exists>j. json_from_slice lib (as_bytes (json_text ty ch origin)) = Some j \<and>
             client_str lib j ''type'' = Some ty \<and> client_str lib j ''challenge'' = Some ch \<and>
             client_str lib j ''origin'' = Some origin)) \<and>
     json_from_slice lib (as_bytes ''not json'') = None \<and>
     (\<forall>b. json_plain (b64url_encode auth b) \<and> b64url_decode lib (b64url_encode auth b) = Some b) \<and>
     (\<forall>b. length (sha256 lib b) = 32) \<and>
     sha256 lib (as_bytes test_rp) \<noteq> sha256 lib (as_bytes ''other.example.com'') \<and>
     (\<forall>s. sig_from_der lib (sig_to_der auth s) = Some s) \<and>
     (\<forall>key. \<exists>vk. vk_from_sec1 lib (sk_point auth key) = Some vk \<and>
        (\<forall>m. vk_verify lib vk m (sk_sign auth key m)))"

text \<open>\<open>key\<close> does not verify, on \<open>m\<close>, the signature that \<open>key'\<close> made of \<open>m'\<close>.\<close>

definition unforged ::
    "('j, 'v, 's) webauthn_lib \<Rightarrow> ('k, 's) signing_lib \<Rightarrow> 'k \<Rightarrow> bytes \<Rightarrow> 'k \<Rightarrow> bytes \<Rightarrow> bool" where
  "unforged lib auth key m key' m' \<longleftrightarrow>
     (case vk_from_sec1 lib (sk_point auth key) of
        Some vk \<Rightarrow> \<not> vk_verify lib vk m (sk_sign auth key' m')
      | None \<Rightarrow> True)"

section \<open>The stages on what the tests present\<close>

lemma json_plain_simps [simp]:
  "json_plain []"
  "json_plain (c # s) \<longleftrightarrow> of_char c \<ge> (32 :: nat) \<and> c \<noteq> CHR 0x22 \<and> c \<noteq> CHR 0x5C \<and> json_plain s"
  by (simp_all add: json_plain_def)

lemma client_data_checked:
  assumes "honest_crates lib auth" and "json_plain ty" and "json_plain origin"
  shows "check_client_data lib ex (client_data auth ty challenge origin) =
    (if ty \<noteq> ''webauthn.get'' then Err WrongType
     else if challenge \<noteq> exp_challenge ex then Err ChallengeMismatch
     else if origin \<noteq> exp_origin ex then Err OriginMismatch
     else Ok ())"
proof -
  have b: "json_plain (b64url_encode auth challenge)" "b64url_decode lib (b64url_encode auth challenge) = Some challenge"
    using assms(1) by (simp_all add: honest_crates_def)
  then obtain j where "json_from_slice lib (client_data auth ty challenge origin) = Some j"
    "client_str lib j ''type'' = Some ty"
    "client_str lib j ''challenge'' = Some (b64url_encode auth challenge)"
    "client_str lib j ''origin'' = Some origin"
    using assms unfolding honest_crates_def client_data_def by blast
  with b(2) show ?thesis by (simp add: check_client_data_def)
qed

lemma reported_count_auth_data:
  "length (sha256 lib (as_bytes rp)) = 32 \<Longrightarrow> reported_count (auth_data lib rp flags n @ ext) = n"
proof -
  assume "length (sha256 lib (as_bytes rp)) = 32"
  then have "(auth_data lib rp flags n @ ext) ! (33 + i) = u32_to_be_bytes n ! i" if "i < 4" for i
    using that by (simp add: auth_data_def nth_append)
  from this [of 0] this [of 1] this [of 2] this [of 3] show ?thesis
    by (simp add: reported_count_def del: One_nat_def)
qed

lemma auth_data_checked:
  assumes "honest_crates lib auth"
  shows "check_authenticator_data lib ex (auth_data lib rp flags n @ ext) =
    (if sha256 lib (as_bytes rp) \<noteq> sha256 lib (as_bytes (exp_rp_id ex)) then Err RpIdMismatch
     else if \<not> bit flags 0 then Err UserNotPresent
     else if n \<noteq> 0 \<and> n \<le> stored_sign_count ex then Err SignCountRegression
     else Ok n)"
proof -
  have l: "length (sha256 lib (as_bytes rp)) = 32" using assms by (simp add: honest_crates_def)
  then have "take 32 (auth_data lib rp flags n @ ext) = sha256 lib (as_bytes rp)"
    "(auth_data lib rp flags n @ ext) ! 32 = flags" "\<not> length (auth_data lib rp flags n @ ext) < 37"
    by (simp_all add: auth_data_def nth_append)
  then show ?thesis by (simp only: check_authenticator_data_eq reported_count_auth_data [OF l] if_False)
qed

lemma signature_checked:
  assumes "honest_crates lib auth"
  shows "check_signature lib (fixture_pubkey (fixture auth key)) ad cd
      (sign lib auth (fixture auth key') ad' cd') =
    (if unforged lib auth key (ad @ sha256 lib cd) key' (ad' @ sha256 lib cd')
     then Err BadSignature else Ok ())"
proof -
  obtain vk where "vk_from_sec1 lib (sk_point auth key) = Some vk"
    using assms unfolding honest_crates_def by blast
  moreover have "sig_from_der lib (sig_to_der auth s) = Some s" for s
    using assms by (simp add: honest_crates_def)
  ultimately show ?thesis
    by (simp add: check_signature_def fixture_def sign_def unforged_def Let_def)
qed

lemma own_signature: "honest_crates lib auth \<Longrightarrow> \<not> unforged lib auth key m key m"
proof -
  assume "honest_crates lib auth"
  then obtain vk where "vk_from_sec1 lib (sk_point auth key) = Some vk" "vk_verify lib vk m (sk_sign auth key m)"
    unfolding honest_crates_def by blast
  then show ?thesis by (simp add: unforged_def)
qed

lemma bit_flag_up [simp]: "bit flag_up 0" "\<not> bit (0 :: u8) 0"
  by (simp_all add: flag_up_def)

lemma fixture_sel [simp]:
  "fixture_challenge (fixture auth key) = replicate 32 9"
  "exp_rp_id (expectations f n) = test_rp" "exp_origin (expectations f n) = test_origin"
  "exp_challenge (expectations f n) = fixture_challenge f" "stored_sign_count (expectations f n) = n"
  by (simp_all add: fixture_def expectations_def)

lemmas webauthn_test_simps = verify_def client_data_checked auth_data_checked
  auth_data_checked [where ext = "[]", simplified] signature_checked own_signature
  test_origin_def

definition webauthn_tests :: "('j, 'v, 's, 'k) webauthn_test list" where
  "webauthn_tests =
     [a_genuine_assertion_verifies, a_lookalike_origin_is_refused, a_replayed_challenge_is_refused,
      a_registration_response_cannot_be_used_to_log_in,
      an_assertion_for_another_relying_party_is_refused, absent_user_presence_is_refused,
      a_regressing_sign_count_suggests_a_clone, a_zero_sign_count_is_accepted,
      another_credential_cannot_sign_for_this_one,
      tampered_authenticator_data_breaks_the_signature,
      truncated_authenticator_data_is_rejected_not_panicked,
      garbage_client_data_is_rejected_not_panicked]"

lemma ceremony_tests:
  assumes "honest_crates lib auth"
  shows "a_genuine_assertion_verifies lib auth key key'"
    and "a_lookalike_origin_is_refused lib auth key key'"
    and "a_replayed_challenge_is_refused lib auth key key'"
    and "a_registration_response_cannot_be_used_to_log_in lib auth key key'"
    and "absent_user_presence_is_refused lib auth key key'"
    and "a_regressing_sign_count_suggests_a_clone lib auth key key'"
    and "a_zero_sign_count_is_accepted lib auth key key'"
  unfolding a_genuine_assertion_verifies_def a_lookalike_origin_is_refused_def
    a_replayed_challenge_is_refused_def a_registration_response_cannot_be_used_to_log_in_def
    absent_user_presence_is_refused_def a_regressing_sign_count_suggests_a_clone_def
    a_zero_sign_count_is_accepted_def
  using assms by (simp_all add: webauthn_test_simps Let_def)

text \<open>What the credential signs in most tests, and the same with the authenticator data extended.\<close>

definition signed_message ::
    "('j, 'v, 's) webauthn_lib \<Rightarrow> ('k, 's) signing_lib \<Rightarrow> bytes \<Rightarrow> bytes" where
  "signed_message lib auth ext =
     auth_data lib test_rp flag_up 5 @ ext @
     sha256 lib (client_data auth ''webauthn.get'' (replicate 32 9) test_origin)"

lemma forgery_tests:
  assumes "honest_crates lib auth"
  shows "unforged lib auth key (signed_message lib auth []) key' (signed_message lib auth []) \<Longrightarrow>
      another_credential_cannot_sign_for_this_one lib auth key key'"
    and "unforged lib auth key (signed_message lib auth [0xff]) key (signed_message lib auth []) \<Longrightarrow>
      tampered_authenticator_data_breaks_the_signature lib auth key key'"
  unfolding another_credential_cannot_sign_for_this_one_def
    tampered_authenticator_data_breaks_the_signature_def
  using assms by (simp_all add: webauthn_test_simps signed_message_def Let_def)

lemma malformed_tests:
  assumes "honest_crates lib auth"
  shows "an_assertion_for_another_relying_party_is_refused lib auth key key'"
    and "truncated_authenticator_data_is_rejected_not_panicked lib auth key key'"
    and "garbage_client_data_is_rejected_not_panicked lib auth key key'"
proof -
  have "sha256 lib (as_bytes ''other.example.com'') \<noteq> sha256 lib (as_bytes test_rp)"
    and garbage: "json_from_slice lib (as_bytes ''not json'') = None"
    using assms unfolding honest_crates_def by (elim conjE, metis)+
  then show "an_assertion_for_another_relying_party_is_refused lib auth key key'"
    unfolding an_assertion_for_another_relying_party_is_refused_def
    using assms by (simp add: webauthn_test_simps Let_def)
  show "truncated_authenticator_data_is_rejected_not_panicked lib auth key key'"
    unfolding truncated_authenticator_data_is_rejected_not_panicked_def
    using assms by (simp add: webauthn_test_simps check_authenticator_data_eq Let_def)
  show "garbage_client_data_is_rejected_not_panicked lib auth key key'"
    unfolding garbage_client_data_is_rejected_not_panicked_def
    using garbage by (simp add: verify_def check_client_data_def Let_def)
qed

text \<open>C24: every test of the assertion verification passes, for all keys, as long as the crates do
  what they document and the signatures of the two forgery tests are not forgeries.\<close>

theorem webauthn_tests_pass:
  assumes "honest_crates lib auth"
    and "unforged lib auth key (signed_message lib auth []) key' (signed_message lib auth [])"
    and "unforged lib auth key (signed_message lib auth [0xff]) key (signed_message lib auth [])"
  shows "list_all (\<lambda>test. test lib auth key key') webauthn_tests"
  using ceremony_tests [OF assms(1)] forgery_tests [OF assms(1)] malformed_tests [OF assms(1)] assms(2,3)
  by (simp add: webauthn_tests_def)

section \<open>Crates to run the tests on\<close>

text \<open>A JSON reader for three string members, hexadecimal for base64, checksums for digests, and
  the signed message itself, with the key, for a signature.\<close>

fun split_on :: "char \<Rightarrow> string \<Rightarrow> string list" where
  "split_on q [] = [[]]"
| "split_on q (c # s) = (if c = q then [] # split_on q s
     else (case split_on q s of x # xs \<Rightarrow> (c # x) # xs | [] \<Rightarrow> [[c]]))"

lemma split_on_append: "q \<notin> set a \<Longrightarrow> split_on q (a @ q # s) = a # split_on q s"
  by (induction a) auto

lemma split_on_last: "q \<notin> set a \<Longrightarrow> split_on q a = [a]"
  by (induction a) auto

fun unhex :: "string \<Rightarrow> bytes" where
  "unhex (c # d # s) = of_nat ((of_char c - 65) * 16 + (of_char d - 65)) # unhex s"
| "unhex _ = []"

definition hex :: "bytes \<Rightarrow> string" where
  "hex b = concat (map (\<lambda>w. [char_of (65 + unat w div 16), char_of (65 + unat w mod 16)]) b)"

definition toy_crates :: "(string + (string \<times> string) list, bytes, bytes) webauthn_lib" where
  "toy_crates =
     \<lparr>json_from_slice = (\<lambda>b. let f = split_on (CHR 0x22) (map (\<lambda>w. char_of (unat w)) b) in
        if length f = 13 then Some (Inr [(f ! 1, f ! 3), (f ! 5, f ! 7), (f ! 9, f ! 11)]) else None),
      json_get = (\<lambda>j k. case j of Inr m \<Rightarrow> map_option Inl (map_of m k) | Inl _ \<Rightarrow> None),
      json_as_str = (\<lambda>j. case j of Inl s \<Rightarrow> Some s | Inr _ \<Rightarrow> None),
      b64url_decode = (\<lambda>s. Some (unhex s)),
      sha256 = (\<lambda>b. replicate 32 (sum_list b)),
      vk_from_sec1 = (\<lambda>b. if length b = 65 then Some b else None),
      sig_from_der = Some,
      sig_from_slice = (\<lambda>s. None),
      vk_verify = (\<lambda>vk m s. s = hd vk # m)\<rparr>"

definition toy_authenticator :: "(u8, bytes) signing_lib" where
  "toy_authenticator =
     \<lparr>b64url_encode = hex, sk_point = replicate 65, sk_sign = (\<lambda>k m. k # m), sig_to_der = id\<rparr>"

lemma unat_u8_less: "unat (w :: u8) < 256"
  using unsigned_less [of w] by simp

lemma unhex_hex: "unhex (hex b) = b"
proof (induction b)
  case (Cons w b)
  have "unat w div 16 < 16" "unat w mod 16 < 16" using unat_u8_less [of w] by auto
  then show ?case using Cons by (simp add: hex_def of_char_of)
qed (simp add: hex_def)

lemma json_plain_hex: "json_plain (hex b)"
proof (induction b)
  case (Cons w b)
  have plain: "of_char (char_of (65 + n) :: char) \<ge> (32 :: nat) \<and> char_of (65 + n) \<noteq> CHR 0x22 \<and>
      char_of (65 + n) \<noteq> CHR 0x5C" if "n < 16" for n :: nat
  proof -
    have n: "of_char (char_of (65 + n) :: char) = 65 + n" using that by (simp add: of_char_of)
    have "x \<noteq> y" if "of_char x \<noteq> (of_char y :: nat)" for x y :: char using that by auto
    from this [of "char_of (65 + n)", unfolded n] that show ?thesis unfolding n by simp
  qed
  have "unat w div 16 < 16" "unat w mod 16 < 16" using unat_u8_less [of w] by auto
  then show ?case using Cons plain by (simp add: hex_def)
qed (simp add: hex_def)

lemma toy_reads_json:
  assumes "json_plain ty" and "json_plain ch" and "json_plain orig"
  shows "json_from_slice toy_crates (as_bytes (json_text ty ch orig)) =
    Some (Inr [(''type'', ty), (''challenge'', ch), (''origin'', orig)])"
proof -
  have q: "CHR 0x22 \<notin> set s" if "json_plain s" for s
    using that by (auto simp: json_plain_def list_all_iff)
  have "split_on (CHR 0x22) (json_text ty ch orig) =
      [[CHR 0x7B], ''type'', '':'', ty, '','', ''challenge'', '':'', ch, '','', ''origin'', '':'', orig, [CHR 0x7D]]"
    using assms by (simp add: json_text_def json_member_def split_on_append split_on_last q)
  then show ?thesis by (simp add: toy_crates_def chars_of_bytes Let_def)
qed

lemma toy_honest: "honest_crates toy_crates toy_authenticator"
proof -
  have "sha256 toy_crates (as_bytes test_rp) \<noteq> sha256 toy_crates (as_bytes ''other.example.com'')"
    by (simp add: toy_crates_def test_rp_def as_bytes_def of_char_def)
  moreover have "json_from_slice toy_crates (as_bytes ''not json'') = None"
    by (simp add: toy_crates_def chars_of_bytes)
  moreover have "client_str toy_crates (Inr m) name = map_of m name" for m name
    by (cases "map_of m name") (simp_all add: client_str_def toy_crates_def)
  ultimately show ?thesis
    by (simp add: honest_crates_def toy_reads_json)
      (simp add: toy_crates_def toy_authenticator_def unhex_hex json_plain_hex)
qed

lemma toy_unforged:
  "unforged toy_crates toy_authenticator k m k' m' \<longleftrightarrow> \<not> (k = k' \<and> m = m')"
  by (auto simp: unforged_def toy_crates_def toy_authenticator_def)

theorem webauthn_tests_pass_witness:
  "list_all (\<lambda>test. test toy_crates toy_authenticator 1 2) webauthn_tests"
proof (rule webauthn_tests_pass [OF toy_honest])
  have "length (signed_message toy_crates toy_authenticator [0xff]) \<noteq>
      length (signed_message toy_crates toy_authenticator [])"
    by (simp add: signed_message_def)
  then have "signed_message toy_crates toy_authenticator [0xff] \<noteq> signed_message toy_crates toy_authenticator []"
    by metis
  then show "unforged toy_crates toy_authenticator 1 (signed_message toy_crates toy_authenticator [0xff])
      1 (signed_message toy_crates toy_authenticator [])"
    by (simp add: toy_unforged)
qed (simp add: toy_unforged)

end
