(* ===== verification/Software_Tests.thy ===== *)
theory Software_Tests
  imports Software_Provider_Properties "HOL-Library.Sublist"
begin

text \<open>
  The tests of \<open>crypto/src/providers/software.rs\<close> on the model, one executable proposition per
  test. The operating system's generator is a state \<open>g\<close> that the calls of one test pass on. Only
  \<open>ciphertext_never_contains_the_plaintext\<close> is left out: that a random-looking text happens not to
  contain six given bytes follows from no documented law of the cipher.
\<close>

section \<open>The tests\<close>

definition test_provider :: key_map where
  "test_provider = with_key new_keys (KeyHandle ''idx-1'') (replicate 32 7)"

definition idx1 :: KeyHandle where
  "idx1 = KeyHandle ''idx-1''"

text \<open>\<open>unwrap\<close>: the rest of a test runs on the result, an error fails the test.\<close>

definition unwrapped :: "('a, 'e) res \<Rightarrow> ('a \<Rightarrow> bool) \<Rightarrow> bool" where
  "unwrapped r rest = (case r of Ok a \<Rightarrow> rest a | Err _ \<Rightarrow> False | Panic \<Rightarrow> False)"

type_synonym ('g, 'k, 'h) provider_test = "('g, 'k, 'h) crypto_lib \<Rightarrow> 'g \<Rightarrow> bool"

definition index_is_deterministic :: "('g, 'k, 'h) provider_test" where
  "index_is_deterministic lib _ \<longleftrightarrow>
     (let p = test_provider
      in unwrapped (sw_blind_index lib p idx1 ''tenant-a'' (as_bytes ''user@example.com'')) (\<lambda>a.
         unwrapped (sw_blind_index lib p idx1 ''tenant-a'' (as_bytes ''user@example.com'')) (\<lambda>b. a = b)))"

definition same_plaintext_differs_across_tenants :: "('g, 'k, 'h) provider_test" where
  "same_plaintext_differs_across_tenants lib _ \<longleftrightarrow>
     (let p = test_provider
      in unwrapped (sw_blind_index lib p idx1 ''tenant-a'' (as_bytes ''user@example.com'')) (\<lambda>a.
         unwrapped (sw_blind_index lib p idx1 ''tenant-b'' (as_bytes ''user@example.com'')) (\<lambda>b. a \<noteq> b)))"

definition framing_prevents_cross_boundary_collision :: "('g, 'k, 'h) provider_test" where
  "framing_prevents_cross_boundary_collision lib _ \<longleftrightarrow>
     (let p = test_provider
      in unwrapped (sw_blind_index lib p idx1 ''ab'' (as_bytes ''c'')) (\<lambda>a.
         unwrapped (sw_blind_index lib p idx1 ''a'' (as_bytes ''bc'')) (\<lambda>b. a \<noteq> b)))"

definition different_input_differs :: "('g, 'k, 'h) provider_test" where
  "different_input_differs lib _ \<longleftrightarrow>
     (let p = test_provider
      in unwrapped (sw_blind_index lib p idx1 ''t'' (as_bytes ''alice@example.com'')) (\<lambda>a.
         unwrapped (sw_blind_index lib p idx1 ''t'' (as_bytes ''bob@example.com'')) (\<lambda>b. a \<noteq> b)))"

definition unknown_handle_is_an_error_not_a_default_key :: "('g, 'k, 'h) provider_test" where
  "unknown_handle_is_an_error_not_a_default_key lib _ \<longleftrightarrow>
     (case sw_blind_index lib test_provider (KeyHandle ''nope'') ''t'' (as_bytes ''x'') of
        Err (UnknownKey _) \<Rightarrow> True | _ \<Rightarrow> False)"

definition attestation_admits_it_is_not_fips :: "('g, 'k, 'h) provider_test" where
  "attestation_admits_it_is_not_fips lib _ \<longleftrightarrow>
     (let a = attestation (software_provider (lib, test_provider))
      in \<not> fips a \<and> certificate a = None)"

definition envelope_round_trip :: "('g, 'k, 'h) provider_test" where
  "envelope_round_trip lib g \<longleftrightarrow>
     (let p = test_provider; (dek, g) = sw_generate_wrapped_dek lib p idx1 ''t1'' g
      in unwrapped dek (\<lambda>dek.
        let (ct, g) = sw_encrypt_field lib p idx1 ''t1'' dek (as_bytes ''secret@example.com'') g
        in unwrapped ct (\<lambda>ct.
           unwrapped (sw_decrypt_field lib p idx1 ''t1'' dek ct) (\<lambda>pt. pt = as_bytes ''secret@example.com''))))"

definition a_dek_cannot_open_another_tenants_ciphertext :: "('g, 'k, 'h) provider_test" where
  "a_dek_cannot_open_another_tenants_ciphertext lib g \<longleftrightarrow>
     (let p = test_provider; (dek, g) = sw_generate_wrapped_dek lib p idx1 ''t1'' g
      in unwrapped dek (\<lambda>dek.
        let (ct, g) = sw_encrypt_field lib p idx1 ''t1'' dek (as_bytes ''payload'') g
        in unwrapped ct (\<lambda>ct. sw_decrypt_field lib p idx1 ''t2'' dek ct = Err Decrypt)))"

definition wrapped_dek_is_bound_to_its_tenant :: "('g, 'k, 'h) provider_test" where
  "wrapped_dek_is_bound_to_its_tenant lib g \<longleftrightarrow>
     (let p = test_provider; (dek, g) = sw_generate_wrapped_dek lib p idx1 ''t1'' g
      in unwrapped dek (\<lambda>dek.
        fst (sw_encrypt_field lib p idx1 ''t2'' dek (as_bytes ''x'') g) = Err Decrypt))"

definition tamper :: "bytes \<Rightarrow> bytes" where
  "tamper ct = (let last = length ct - 1 in ct[last := ct ! last XOR 0x01])"

definition tampered_ciphertext_is_rejected :: "('g, 'k, 'h) provider_test" where
  "tampered_ciphertext_is_rejected lib g \<longleftrightarrow>
     (let p = test_provider; (dek, g) = sw_generate_wrapped_dek lib p idx1 ''t1'' g
      in unwrapped dek (\<lambda>dek.
        let (ct, g) = sw_encrypt_field lib p idx1 ''t1'' dek (as_bytes ''payload'') g
        in unwrapped ct (\<lambda>ct. sw_decrypt_field lib p idx1 ''t1'' dek (tamper ct) = Err Decrypt)))"

definition each_encryption_uses_a_fresh_nonce :: "('g, 'k, 'h) provider_test" where
  "each_encryption_uses_a_fresh_nonce lib g \<longleftrightarrow>
     (let p = test_provider; (dek, g) = sw_generate_wrapped_dek lib p idx1 ''t1'' g
      in unwrapped dek (\<lambda>dek.
        let (a, g) = sw_encrypt_field lib p idx1 ''t1'' dek (as_bytes ''same'') g
        in unwrapped a (\<lambda>a.
        let (b, g) = sw_encrypt_field lib p idx1 ''t1'' dek (as_bytes ''same'') g
        in unwrapped b (\<lambda>b. a \<noteq> b))))"

definition truncated_input_is_rejected_not_panicked :: "('g, 'k, 'h) provider_test" where
  "truncated_input_is_rejected_not_panicked lib g \<longleftrightarrow>
     (let p = test_provider; (dek, g) = sw_generate_wrapped_dek lib p idx1 ''t1'' g
      in unwrapped dek (\<lambda>dek. sw_decrypt_field lib p idx1 ''t1'' dek (as_bytes ''short'') = Err Decrypt))"

definition key_handle_debug_shows_id_not_material :: "('g, 'k, 'h) provider_test" where
  "key_handle_debug_shows_id_not_material lib _ \<longleftrightarrow>
     (let printed = handle_debug (KeyHandle ''idx-1'')
      in sublist ''idx-1'' printed \<and> CHR ''7'' \<notin> set printed)"

definition software_tests :: "('g, 'k, 'h) provider_test list" where
  "software_tests =
     [index_is_deterministic, same_plaintext_differs_across_tenants,
      framing_prevents_cross_boundary_collision, different_input_differs,
      unknown_handle_is_an_error_not_a_default_key, attestation_admits_it_is_not_fips,
      envelope_round_trip, a_dek_cannot_open_another_tenants_ciphertext,
      wrapped_dek_is_bound_to_its_tenant, tampered_ciphertext_is_rejected,
      each_encryption_uses_a_fresh_nonce, truncated_input_is_rejected_not_panicked,
      key_handle_debug_shows_id_not_material]"

section \<open>What the tests take for granted\<close>

text \<open>AES-GCM seals every text below its length limit of 2 ^ 36 - 32 bytes.\<close>

definition seals_short_texts :: "('g, 'k, 'h) crypto_lib \<Rightarrow> bool" where
  "seals_short_texts lib \<longleftrightarrow>
     (\<forall>k n m a. length n = 12 \<longrightarrow> length m < 2 ^ 36 - 32 \<longrightarrow> is_ok (gcm_encrypt lib k n m a))"

text \<open>The messages whose MAC the tests compute, and that no two of them collide.\<close>

definition test_frames :: "bytes list" where
  "test_frames =
     [index_frame ''tenant-a'' (as_bytes ''user@example.com''), index_frame ''tenant-b'' (as_bytes ''user@example.com''),
      index_frame ''ab'' (as_bytes ''c''), index_frame ''a'' (as_bytes ''bc''),
      index_frame ''t'' (as_bytes ''alice@example.com''), index_frame ''t'' (as_bytes ''bob@example.com'')]"

definition mac_separates :: "('g, 'k, 'h) crypto_lib \<Rightarrow> bytes \<Rightarrow> bytes list \<Rightarrow> bool" where
  "mac_separates lib material ms \<longleftrightarrow>
     (case hmac_new lib material of
        Ok mac \<Rightarrow> (\<forall>m \<in> set ms. \<forall>m' \<in> set ms.
          hmac_finalize lib (hmac_update lib mac m) = hmac_finalize lib (hmac_update lib mac m') \<longrightarrow> m = m')
      | _ \<Rightarrow> True)"

text \<open>The primitive authenticates two sealed texts under one key and the same associated data.\<close>

definition authenticates_texts ::
    "('g, 'k, 'h) crypto_lib \<Rightarrow> bytes \<Rightarrow> bytes \<Rightarrow> bytes \<Rightarrow> bytes \<Rightarrow> bool" where
  "authenticates_texts lib key a s s' \<longleftrightarrow>
     (case gcm_new lib key of
        Ok cipher \<Rightarrow>
          is_ok (gcm_decrypt lib cipher (take nonce_len s) (drop nonce_len s) a) \<and>
          is_ok (gcm_decrypt lib cipher (take nonce_len s') (drop nonce_len s') a)
      | _ \<Rightarrow> False)"

text \<open>No forgery happens in the tests that start from \<open>g\<close>: the minted key does not open under the
  other tenant's associated data, the tampered text does not authenticate beside the genuine one, and
  the generator draws two different nonces.\<close>

definition no_forgery :: "('g, 'k, 'h) crypto_lib \<Rightarrow> 'g \<Rightarrow> bool" where
  "no_forgery lib g \<longleftrightarrow>
     (case sw_generate_wrapped_dek lib test_provider idx1 ''t1'' g of
        (Ok w, g1) \<Rightarrow>
          \<not> wrapped_key_ambiguous (lib, test_provider) idx1 ''t1'' ''t2'' w \<and>
          (case sw_encrypt_field lib test_provider idx1 ''t1'' w (as_bytes ''payload'') g1 of
             (Ok c, _) \<Rightarrow>
               \<not> authenticates_texts lib (fst (fill_bytes lib dek_len g)) (aad domain_field ''t1'') c (tamper c)
           | _ \<Rightarrow> True) \<and>
          fst (fill_bytes lib nonce_len g1) \<noteq> fst (fill_bytes lib nonce_len (snd (fill_bytes lib nonce_len g1)))
      | _ \<Rightarrow> True)"

section \<open>Minting and sealing succeed\<close>

lemma idx1_key: "test_provider idx1 = Some (replicate 32 7)"
  by (simp add: test_provider_def idx1_def with_key_def)

lemma seal_succeeds:
  assumes "lib_lawful lib" and "seals_short_texts lib" and "length key = 32" and "length m < 2 ^ 36 - 32"
  obtains s where "aead_seal lib key ad m g = (Ok s, snd (fill_bytes lib nonce_len g))"
proof -
  obtain cipher where c: "gcm_new lib key = Ok cipher"
    using lib_lawfulD(3) [OF assms(1), of key] assms(3) by (auto simp: is_ok_conv)
  have n: "length (fst (fill_bytes lib nonce_len g)) = 12"
    by (simp add: lib_lawfulD(1) [OF assms(1)] nonce_len_def)
  then obtain ct where "gcm_encrypt lib cipher (fst (fill_bytes lib nonce_len g)) m ad = Ok ct"
    using assms(2,4) unfolding seals_short_texts_def is_ok_conv by blast
  with c n that show ?thesis
    by (simp add: aead_seal_def nonce_from_slice_def nonce_len_def split_beta)
qed

lemma mint_succeeds:
  assumes "lib_lawful lib" and "seals_short_texts lib" and "keys kek = Some key" and "length key = 32"
  obtains w g1 where "sw_generate_wrapped_dek lib keys kek t g = (Ok w, g1)"
    "unwrap_dek lib keys kek t w = Ok (fst (fill_bytes lib dek_len g))"
proof -
  let ?dek = "fst (fill_bytes lib dek_len g)"
  have "length ?dek < 2 ^ 36 - 32" by (simp add: lib_lawfulD(1) [OF assms(1)] dek_len_def)
  then obtain w where "aead_seal lib key (aad domain_dek_wrap t) ?dek (snd (fill_bytes lib dek_len g)) =
      (Ok w, snd (fill_bytes lib nonce_len (snd (fill_bytes lib dek_len g))))"
    using seal_succeeds [OF assms(1,2,4)] by metis
  then have "sw_generate_wrapped_dek lib keys kek t g =
      (Ok w, snd (fill_bytes lib nonce_len (snd (fill_bytes lib dek_len g))))"
    by (simp add: sw_generate_wrapped_dek_def kek_of_def assms(3) split_beta)
  with that unwrap_generated [OF assms(1) this] show ?thesis by blast
qed

lemma encrypt_succeeds:
  assumes "lib_lawful lib" and "seals_short_texts lib"
    and "unwrap_dek lib keys kek t w = Ok (fst (fill_bytes lib dek_len g0))"
    and "length m < 2 ^ 36 - 32"
  obtains c where "sw_encrypt_field lib keys kek t w m g = (Ok c, snd (fill_bytes lib nonce_len g))"
proof -
  have "length (fst (fill_bytes lib dek_len g0)) = 32"
    by (simp add: lib_lawfulD(1) [OF assms(1)] dek_len_def)
  with seal_succeeds [OF assms(1,2) _ assms(4)] obtain c where
    "aead_seal lib (fst (fill_bytes lib dek_len g0)) (aad domain_field t) m g = (Ok c, snd (fill_bytes lib nonce_len g))"
    by metis
  with that show ?thesis by (simp add: sw_encrypt_field_def assms(3))
qed

section \<open>All tests pass\<close>

lemma index_tests:
  assumes "lib_lawful lib" and "mac_separates lib (replicate 32 7) test_frames"
  shows "index_is_deterministic lib g" and "same_plaintext_differs_across_tenants lib g"
    and "framing_prevents_cross_boundary_collision lib g" and "different_input_differs lib g"
proof -
  obtain mac where mac: "hmac_new lib (replicate 32 7) = Ok mac"
    using lib_lawfulD(8) [OF assms(1), of "replicate 32 7"] by (auto simp: is_ok_conv)
  have index: "sw_blind_index lib test_provider idx1 t i =
      Ok (hmac_finalize lib (hmac_update lib mac (index_frame t i)))" for t i
    by (simp add: blind_index_frame [OF assms(1)] idx1_key mac)
  have differ: "hmac_finalize lib (hmac_update lib mac (index_frame t i)) \<noteq>
      hmac_finalize lib (hmac_update lib mac (index_frame t' i'))"
    if "index_frame t i \<in> set test_frames" "index_frame t' i' \<in> set test_frames"
      "(t, i) \<noteq> (t', i')" "length t < 100" "length t' < 100" for t i t' i'
    using assms(2) that index_frame_inject [of t t' i i'] by (auto simp: mac_separates_def mac)
  show "index_is_deterministic lib g" "same_plaintext_differs_across_tenants lib g"
    "framing_prevents_cross_boundary_collision lib g" "different_input_differs lib g"
    by (simp_all add: index_is_deterministic_def same_plaintext_differs_across_tenants_def
        framing_prevents_cross_boundary_collision_def different_input_differs_def unwrapped_def index
        differ test_frames_def)
qed

lemma constant_tests:
  "unknown_handle_is_an_error_not_a_default_key lib g" "attestation_admits_it_is_not_fips lib g"
  "key_handle_debug_shows_id_not_material lib g"
proof -
  show "key_handle_debug_shows_id_not_material lib g"
    unfolding key_handle_debug_shows_id_not_material_def by code_simp
qed (simp_all add: unknown_handle_is_an_error_not_a_default_key_def sw_blind_index_def test_provider_def
    with_key_def new_keys_def attestation_admits_it_is_not_fips_def sw_attestation_def)

lemma ciphertext_nonce:
  assumes "sw_encrypt_field lib keys kek t w m g = (Ok c, g')"
  shows "take nonce_len c = fst (fill_bytes lib nonce_len g)"
  using assms by (auto elim!: encrypt_field_OkD aead_seal_OkD)

text \<open>A wrapped key minted for the tenant \<open>t1\<close>, as most tests begin.\<close>

definition minted :: "('g, 'k, 'h) crypto_lib \<Rightarrow> 'g \<Rightarrow> bytes \<Rightarrow> 'g \<Rightarrow> bool" where
  "minted lib g w g1 \<longleftrightarrow>
     sw_generate_wrapped_dek lib test_provider idx1 ''t1'' g = (Ok w, g1) \<and>
     unwrap_dek lib test_provider idx1 ''t1'' w = Ok (fst (fill_bytes lib dek_len g))"

lemma tenant_tests:
  assumes lib: "lib_lawful lib" "seals_short_texts lib" and "no_forgery lib g" and "minted lib g w g1"
  shows "a_dek_cannot_open_another_tenants_ciphertext lib g" and "wrapped_dek_is_bound_to_its_tenant lib g"
proof -
  from assms(4) have w: "sw_generate_wrapped_dek lib test_provider idx1 ''t1'' g = (Ok w, g1)"
    and dek: "unwrap_dek lib test_provider idx1 ''t1'' w = Ok (fst (fill_bytes lib dek_len g))"
    by (simp_all add: minted_def)
  have sealed: "\<not> wrapped_key_ambiguous (lib, test_provider) idx1 ''t1'' ''t2'' w"
    using assms(3) by (simp add: no_forgery_def w)
  have other: "unwrap_dek lib test_provider idx1 ''t2'' w = Err Decrypt"
    by (rule unwrap_foreign [OF lib(1) dek _ sealed]) simp
  obtain p where "sw_encrypt_field lib test_provider idx1 ''t1'' w (as_bytes ''payload'') g1 =
      (Ok p, snd (fill_bytes lib nonce_len g1))"
    by (rule encrypt_succeeds [OF lib dek, of "as_bytes ''payload''" g1]) simp_all
  then show "a_dek_cannot_open_another_tenants_ciphertext lib g" "wrapped_dek_is_bound_to_its_tenant lib g"
    by (simp_all add: a_dek_cannot_open_another_tenants_ciphertext_def wrapped_dek_is_bound_to_its_tenant_def
        w unwrapped_def other sw_decrypt_field_def sw_encrypt_field_def [of _ _ _ "''t2''"])
qed

lemma text_tests:
  assumes lib: "lib_lawful lib" "seals_short_texts lib" and "no_forgery lib g" and "minted lib g w g1"
  shows "envelope_round_trip lib g" and "tampered_ciphertext_is_rejected lib g"
    and "truncated_input_is_rejected_not_panicked lib g"
proof -
  from assms(4) have w: "sw_generate_wrapped_dek lib test_provider idx1 ''t1'' g = (Ok w, g1)"
    and dek: "unwrap_dek lib test_provider idx1 ''t1'' w = Ok (fst (fill_bytes lib dek_len g))"
    by (simp_all add: minted_def)
  note enc = encrypt_succeeds [OF lib dek]
  obtain c where c: "sw_encrypt_field lib test_provider idx1 ''t1'' w (as_bytes ''secret@example.com'') g1 =
      (Ok c, snd (fill_bytes lib nonce_len g1))"
    by (rule enc [of "as_bytes ''secret@example.com''" g1]) simp_all
  with decrypt_encrypted [OF lib(1) c] show "envelope_round_trip lib g"
    by (simp add: envelope_round_trip_def w unwrapped_def)
  obtain p where p: "sw_encrypt_field lib test_provider idx1 ''t1'' w (as_bytes ''payload'') g1 =
      (Ok p, snd (fill_bytes lib nonce_len g1))"
    by (rule enc [of "as_bytes ''payload''" g1]) simp_all
  have t: "\<not> authenticates_texts lib (fst (fill_bytes lib dek_len g)) (aad domain_field ''t1'') p (tamper p)"
    using assms(3) by (simp add: no_forgery_def w p)
  have open_p: "aead_open lib (fst (fill_bytes lib dek_len g)) (aad domain_field ''t1'') p = Ok (as_bytes ''payload'')"
    using decrypt_encrypted [OF lib(1) p] by (simp add: sw_decrypt_field_def dek)
  then have "aead_open lib (fst (fill_bytes lib dek_len g)) (aad domain_field ''t1'') (tamper p) \<noteq> Ok m" for m
    using t by (auto simp: authenticates_texts_def aead_open_eq rust_simps split: if_splits)
  then have "sw_decrypt_field lib test_provider idx1 ''t1'' w (tamper p) = Err Decrypt"
    using aead_open_same_key [OF lib(1) open_p, of "aad domain_field ''t1''" "tamper p"]
    by (auto simp: sw_decrypt_field_def dek)
  then show "tampered_ciphertext_is_rejected lib g"
    by (simp add: tampered_ciphertext_is_rejected_def w p unwrapped_def)
  show "truncated_input_is_rejected_not_panicked lib g"
    by (simp add: truncated_input_is_rejected_not_panicked_def w unwrapped_def sw_decrypt_field_def dek
        aead_open_eq nonce_len_def)
qed

lemma nonce_test:
  assumes lib: "lib_lawful lib" "seals_short_texts lib" and "no_forgery lib g" and "minted lib g w g1"
  shows "each_encryption_uses_a_fresh_nonce lib g"
proof -
  from assms(4) have w: "sw_generate_wrapped_dek lib test_provider idx1 ''t1'' g = (Ok w, g1)"
    and dek: "unwrap_dek lib test_provider idx1 ''t1'' w = Ok (fst (fill_bytes lib dek_len g))"
    by (simp_all add: minted_def)
  note enc = encrypt_succeeds [OF lib dek]
  let ?g2 = "snd (fill_bytes lib nonce_len g1)"
  obtain a where a: "sw_encrypt_field lib test_provider idx1 ''t1'' w (as_bytes ''same'') g1 = (Ok a, ?g2)"
    by (rule enc [of "as_bytes ''same''" g1]) simp_all
  obtain b where b: "sw_encrypt_field lib test_provider idx1 ''t1'' w (as_bytes ''same'') ?g2 =
      (Ok b, snd (fill_bytes lib nonce_len ?g2))"
    by (rule enc [of "as_bytes ''same''" ?g2]) simp_all
  have "fst (fill_bytes lib nonce_len g1) \<noteq> fst (fill_bytes lib nonce_len ?g2)"
    using assms(3) by (simp add: no_forgery_def w)
  with ciphertext_nonce [OF a] ciphertext_nonce [OF b] show ?thesis
    by (auto simp: each_encryption_uses_a_fresh_nonce_def w a b unwrapped_def)
qed

text \<open>C25: every test of the software provider but \<open>ciphertext_never_contains_the_plaintext\<close>, which no law of a
  cipher gives, passes, for every state of the generator: whatever the crates do beyond their documentation, and as long as
  no forgery of the cipher, collision of the MAC or repeated nonce happens in the very test.\<close>

theorem software_tests_pass:
  assumes "lib_lawful lib" and "seals_short_texts lib" and "no_forgery lib g"
    and "mac_separates lib (replicate 32 7) test_frames"
  shows "list_all (\<lambda>test. test lib g) software_tests"
proof -
  obtain w g1 where "minted lib g w g1"
    unfolding minted_def using mint_succeeds [where keys = test_provider, OF assms(1,2) idx1_key, of "''t1''" g] by (metis length_replicate)
  with assms(1-3) index_tests [OF assms(1,4), of g] show ?thesis
    by (simp add: software_tests_def constant_tests tenant_tests text_tests nonce_test)
qed

text \<open>The stand-in crates with a MAC that, unlike a checksum, depends on the order of the bytes.\<close>

definition toy_mac :: "bytes \<Rightarrow> u8" where
  "toy_mac h = foldl (\<lambda>a b. 3 * a + b) 0 h"

definition test_lib :: "(nat, bytes, bytes) crypto_lib" where
  "test_lib = sample_lib\<lparr>hmac_finalize := (\<lambda>h. replicate 32 (toy_mac h))\<rparr>"

lemma test_lib_lawful: "lib_lawful test_lib"
  using sample_lib_lawful by (simp add: lib_lawful_def test_lib_def sample_lib_def)

lemma test_lib_no_forgery: "no_forgery test_lib 5"
  by code_simp

lemma test_lib_macs: "map (\<lambda>m. toy_mac (replicate 32 7 @ m)) test_frames = [65, 34, 192, 20, 48, 31]"
  by code_simp

lemma test_lib_separates: "mac_separates test_lib (replicate 32 7) test_frames"
proof -
  have "distinct (map (\<lambda>m. toy_mac (replicate 32 7 @ m)) test_frames)"
    unfolding test_lib_macs by simp
  then have "inj_on (\<lambda>m. toy_mac (replicate 32 7 @ m)) (set test_frames)"
    by (simp add: distinct_map)
  then show ?thesis
    by (auto simp: mac_separates_def test_lib_def sample_lib_def dest: inj_onD)
qed

theorem software_tests_pass_witness: "list_all (\<lambda>test. test test_lib 5) software_tests"
proof (rule software_tests_pass [OF test_lib_lawful _ test_lib_no_forgery test_lib_separates])
  show "seals_short_texts test_lib" by (simp add: seals_short_texts_def test_lib_def sample_lib_def)
qed

end
