(* ===== verification/Service_Tests.thy ===== *)
theory Service_Tests
  imports Service_Properties Software_Tests
begin

text \<open>
  The tests of \<open>crypto/src/service.rs\<close> on the model, one executable proposition per test. The
  clock of the guard under test is the real one: the readings that the calls of a test get are
  arguments. The proofs go through the contract of the handlers and the contract of the provider.
\<close>

section \<open>The tests\<close>

definition test_guard :: "('g, 'k, 'h) crypto_lib \<Rightarrow> hash_order \<Rightarrow> 'g \<Rightarrow> 'g Process" where
  "test_guard lib order g =
     (let p = with_key (with_key new_keys (KeyHandle ''idx-1'') (replicate 32 9))
                (KeyHandle ''kek-1'') (replicate 32 3)
      in Guard.extend
           (new_guard order (software_provider (lib, p)) (KeyHandle ''idx-1'') (KeyHandle ''kek-1''))
           (Process.fields g [] []))"

definition ctx :: "Purpose \<Rightarrow> RequestContext option" where
  "ctx purp = Some
     \<lparr>tenant_id = ''t1'', subject_id = ''s1'', purpose = purpose_as_i32 purp, request_id = ''req-1''\<rparr>"

definition fails_with :: "('a, Status) res \<times> 'g Process \<Rightarrow> Code \<Rightarrow> bool" where
  "fails_with r c = (case fst r of Err e \<Rightarrow> code e = c | _ \<Rightarrow> False)"

text \<open>\<open>..Default::default()\<close>.\<close>

definition default_va :: VerifyAssertionRequest where
  "default_va = \<lparr>va_context = None, rp_id = [], expected_origin = [], expected_challenge = [],
     credential = None, assertion = None\<rparr>"

type_synonym ('j, 'v, 's, 'g) service_test =
  "('j, 'v, 's) webauthn_lib \<Rightarrow> 'g Process \<Rightarrow> instant \<Rightarrow> instant \<Rightarrow> bool"

definition no_context_is_invalid_argument :: "('j, 'v, 's, 'g) service_test" where
  "no_context_is_invalid_argument lib g t0 _ \<longleftrightarrow>
     fails_with (verify_assertion lib t0 default_va g) InvalidArgument"

definition wrong_purpose_is_refused_by_the_service :: "('j, 'v, 's, 'g) service_test" where
  "wrong_purpose_is_refused_by_the_service lib g t0 _ \<longleftrightarrow>
     (let req = \<lparr>df_context = ctx PasskeyLogin, df_ciphertext = [], df_wrapped_dek = []\<rparr>
      in fails_with (decrypt_field_handler t0 req g) PermissionDenied)"

definition a_malformed_assertion_is_a_rejected_verdict_not_an_error :: "('j, 'v, 's, 'g) service_test" where
  "a_malformed_assertion_is_a_rejected_verdict_not_an_error lib g t0 _ \<longleftrightarrow>
     (let req =
        \<lparr>va_context = ctx PasskeyLogin, rp_id = ''auth.example.com'',
         expected_origin = ''https://auth.example.com'', expected_challenge = replicate 32 1,
         credential = Some \<lparr>cose_public_key = replicate 65 4, sign_count = 0\<rparr>,
         assertion = Some \<lparr>authenticator_data = replicate 37 0,
           client_data_json = as_bytes ''not json'', signature = replicate 64 0\<rparr>\<rparr>
      in unwrapped (fst (verify_assertion lib t0 req g)) (\<lambda>resp.
           verdict resp = verdict_as_i32 Rejected \<and> reason resp = ''malformed_client_data''))"

definition flood_request :: DecryptFieldRequest where
  "flood_request =
     \<lparr>df_context = ctx RowDecrypt, df_ciphertext = replicate 32 0, df_wrapped_dek = replicate 32 0\<rparr>"

text \<open>The loop: one call for each reading of the clock, until one is refused for its budget.\<close>

fun flood :: "instant list \<Rightarrow> 'g Process \<Rightarrow> bool" where
  "flood [] g = False"
| "flood (t # ts) g =
     (let (r, g') = decrypt_field_handler t flood_request g
      in case r of
           Err e \<Rightarrow> if code e = ResourceExhausted then True else flood ts g'
         | Ok _ \<Rightarrow> flood ts g'
         | Panic \<Rightarrow> False)"

definition a_flood_of_decrypts_trips_the_budget :: "(nat \<Rightarrow> instant) \<Rightarrow> 'g Process \<Rightarrow> bool" where
  "a_flood_of_decrypts_trips_the_budget clock g \<longleftrightarrow> flood (map clock [0..<10000]) g"

definition a_missing_assertion_is_an_error :: "('j, 'v, 's, 'g) service_test" where
  "a_missing_assertion_is_an_error lib g t0 _ \<longleftrightarrow>
     (let req = default_va\<lparr>va_context := ctx PasskeyLogin\<rparr>
      in fails_with (verify_assertion lib t0 req g) InvalidArgument)"

definition envelope_round_trip_over_the_service :: "('j, 'v, 's, 'g) service_test" where
  "envelope_round_trip_over_the_service lib g t0 t1 \<longleftrightarrow>
     (let (enc, g) = encrypt_field_handler t0
            \<lparr>ef_context = ctx RowEncrypt, ef_plaintext = as_bytes ''alice@example.com'', ef_wrapped_dek = []\<rparr> g
      in unwrapped enc (\<lambda>enc.
           resp_wrapped_dek enc \<noteq> [] \<and>
           unwrapped (fst (decrypt_field_handler t1
             \<lparr>df_context = ctx RowDecrypt, df_ciphertext = resp_ciphertext enc,
              df_wrapped_dek = resp_wrapped_dek enc\<rparr> g)) (\<lambda>dec.
             resp_plaintext dec = as_bytes ''alice@example.com'')))"

definition another_tenant_cannot_decrypt_the_row :: "('j, 'v, 's, 'g) service_test" where
  "another_tenant_cannot_decrypt_the_row lib g t0 t1 \<longleftrightarrow>
     (let (enc, g) = encrypt_field_handler t0
            \<lparr>ef_context = ctx RowEncrypt, ef_plaintext = as_bytes ''payload'', ef_wrapped_dek = []\<rparr> g
      in unwrapped enc (\<lambda>enc.
           let other = (the (ctx RowDecrypt))\<lparr>tenant_id := ''tenant-b''\<rparr>
           in fails_with (decrypt_field_handler t1
                \<lparr>df_context = Some other, df_ciphertext = resp_ciphertext enc,
                 df_wrapped_dek = resp_wrapped_dek enc\<rparr> g) PermissionDenied))"

definition blind_index_returns_a_32_byte_index :: "('j, 'v, 's, 'g) service_test" where
  "blind_index_returns_a_32_byte_index lib g t0 _ \<longleftrightarrow>
     (let req = \<lparr>bi_context = ctx BlindIndex, bi_input = as_bytes ''user@example.com''\<rparr>
      in unwrapped (fst (blind_index_handler t0 req g)) (\<lambda>resp. length (bi_index resp) = 32))"

definition blind_index_still_refuses_a_wrong_purpose :: "('j, 'v, 's, 'g) service_test" where
  "blind_index_still_refuses_a_wrong_purpose lib g t0 _ \<longleftrightarrow>
     (let req = \<lparr>bi_context = ctx RowEncrypt, bi_input = as_bytes ''x''\<rparr>
      in fails_with (blind_index_handler t0 req g) PermissionDenied)"

definition unspecified_purpose_never_reaches_the_operation :: "('j, 'v, 's, 'g) service_test" where
  "unspecified_purpose_never_reaches_the_operation lib g t0 _ \<longleftrightarrow>
     (let req = \<lparr>ef_context = ctx Purpose_Unspecified, ef_plaintext = [], ef_wrapped_dek = []\<rparr>
      in fails_with (encrypt_field_handler t0 req g) InvalidArgument)"

definition service_tests :: "('j, 'v, 's, 'g) service_test list" where
  "service_tests =
     [no_context_is_invalid_argument, wrong_purpose_is_refused_by_the_service,
      a_malformed_assertion_is_a_rejected_verdict_not_an_error, a_missing_assertion_is_an_error,
      envelope_round_trip_over_the_service, another_tenant_cannot_decrypt_the_row,
      blind_index_returns_a_32_byte_index, blind_index_still_refuses_a_wrong_purpose,
      unspecified_purpose_never_reaches_the_operation]"

section \<open>The guard under test\<close>

lemma test_guard_sel [simp]:
  "provider (test_guard lib order g) = software_provider (lib, sample_keys)"
  "kek (test_guard lib order g) = KeyHandle ''kek-1''"
  "index_key (test_guard lib order g) = KeyHandle ''idx-1''"
  "limiter (test_guard lib order g) = default_limiter order" "rng (test_guard lib order g) = g"
  by (simp_all add: test_guard_def Guard.extend_def Process.fields_def new_guard_def sample_keys_def Let_def)

lemma ctx_accepted: "purp \<noteq> Purpose_Unspecified \<Longrightarrow> validate (ctx purp) purp s = Ok ()"
  by (simp add: ctx_def validate_Ok_cases well_formed_context_def get_purpose_as_i32)

lemma ctx_refused:
  "purp \<noteq> Purpose_Unspecified \<Longrightarrow> purp \<noteq> want \<Longrightarrow>
     validate (ctx purp) want s = Err (permission_denied
       (''purpose '' @ purpose_debug purp @ '' does not match this operation (T9)''))"
  "validate (ctx Purpose_Unspecified) want s =
     Err (invalid_argument ''PURPOSE_UNSPECIFIED is always rejected (T9)'')"
  by (simp_all add: ctx_def validate_def get_purpose_as_i32 Let_def)

lemma test_first_call:
  assumes "\<forall>xs. mset (order xs) = mset xs"
  shows "allow (default_limiter order) t tenant op = (True, snd (allow (default_limiter order) t tenant op))"
  using default_admits_first [OF assms, of t tenant op] by (simp add: prod_eq_iff)

text \<open>The first write of both row tests.\<close>

lemma first_write:
  assumes "\<forall>xs. mset (order xs) = mset xs" and "lib_lawful lib" and "seals_short_texts lib"
    and "length m < 2 ^ 36 - 32"
  obtains w c g1 p' where
    "sw_generate_wrapped_dek lib sample_keys (KeyHandle ''kek-1'') ''t1'' g = (Ok w, g1)"
    "encrypt_field_handler t0 \<lparr>ef_context = ctx RowEncrypt, ef_plaintext = m, ef_wrapped_dek = []\<rparr>
       (test_guard lib order g) = (Ok \<lparr>resp_ciphertext = c, resp_wrapped_dek = w\<rparr>, p')"
    "limiter p' = snd (allow (default_limiter order) t0 ''t1'' ''encrypt_field'')"
proof -
  let ?m = "\<lparr>ef_context = ctx RowEncrypt, ef_plaintext = m, ef_wrapped_dek = []\<rparr>"
  define l where "l = snd (allow (default_limiter order) t0 ''t1'' ''encrypt_field'')"
  obtain w g1 where w: "sw_generate_wrapped_dek lib sample_keys (KeyHandle ''kek-1'') ''t1'' g = (Ok w, g1)"
    and dek: "unwrap_dek lib sample_keys (KeyHandle ''kek-1'') ''t1'' w = Ok (fst (fill_bytes lib dek_len g))"
    using mint_succeeds [where keys = sample_keys, OF assms(2,3) sample_kek, of "''t1''" g]
    by (metis length_replicate)
  obtain c where c: "sw_encrypt_field lib sample_keys (KeyHandle ''kek-1'') ''t1'' w m g1 =
      (Ok c, snd (fill_bytes lib nonce_len g1))"
    by (rule encrypt_succeeds [OF assms(2,3) dek assms(4)])
  have "encrypt_field_handler t0 ?m (test_guard lib order g) =
      encrypt_field_work ?m ''t1'' ((test_guard lib order g)\<lparr>limiter := l\<rparr>)"
    using encrypt_field.after_gate [of ?m "the (ctx RowEncrypt)" "test_guard lib order g" t0 True l]
      ctx_accepted [of RowEncrypt True] test_first_call [OF assms(1), of t0 "''t1''" "''encrypt_field''"]
    by (simp add: ctx_def l_def)
  also have "\<dots> = (Ok \<lparr>resp_ciphertext = c, resp_wrapped_dek = w\<rparr>,
      audit ''encrypt_field'' (ctx RowEncrypt) ''ok''
        ((test_guard lib order g)\<lparr>limiter := l, rng := snd (fill_bytes lib nonce_len g1)\<rparr>))"
    by (simp add: encrypt_field_work_def row_dek_def w c Let_def)
  finally show ?thesis using that [OF w] by (simp add: l_def)
qed

section \<open>All tests pass\<close>

lemma gate_refusals:
  "no_context_is_invalid_argument lib (test_guard clib order g) t0 t1"
  "wrong_purpose_is_refused_by_the_service lib (test_guard clib order g) t0 t1"
  "blind_index_still_refuses_a_wrong_purpose lib (test_guard clib order g) t0 t1"
  "unspecified_purpose_never_reaches_the_operation lib (test_guard clib order g) t0 t1"
  by (simp_all add: no_context_is_invalid_argument_def wrong_purpose_is_refused_by_the_service_def
      blind_index_still_refuses_a_wrong_purpose_def unspecified_purpose_never_reaches_the_operation_def
      fails_with_def default_va_def Let_def verify_assertion.refused [OF _] validate_None
      decrypt_field.refused blind_index.refused encrypt_field.refused ctx_refused)

lemma answered_tests:
  assumes "\<forall>xs. mset (order xs) = mset xs" and "lib_lawful clib"
    and "json_from_slice lib (as_bytes ''not json'') = None"
  shows "a_malformed_assertion_is_a_rejected_verdict_not_an_error lib (test_guard clib order g) t0 t1"
    and "a_missing_assertion_is_an_error lib (test_guard clib order g) t0 t1"
    and "blind_index_returns_a_32_byte_index lib (test_guard clib order g) t0 t1"
proof -
  let ?p = "test_guard clib order g"
  have tenant: "ctx purp = Some (the (ctx purp))" "tenant_id (the (ctx purp)) = ''t1''" for purp
    by (simp_all add: ctx_def)
  have va: "verify_assertion lib t0 m ?p = verify_assertion_work lib m ''t1''
      (?p\<lparr>limiter := snd (allow (default_limiter order) t0 ''t1'' ''verify_assertion'')\<rparr>)"
    if "va_context m = ctx PasskeyLogin" for m
    using verify_assertion.after_gate [of m "the (ctx PasskeyLogin)" ?p t0 True _ lib] that
      ctx_accepted [of PasskeyLogin False] test_first_call [OF assms(1)] tenant [of PasskeyLogin] by simp
  show "a_malformed_assertion_is_a_rejected_verdict_not_an_error lib ?p t0 t1"
    by (simp add: a_malformed_assertion_is_a_rejected_verdict_not_an_error_def va
        verify_assertion_work_def verify_def check_client_data_def assms(3) unwrapped_def Let_def)
  show "a_missing_assertion_is_an_error lib ?p t0 t1"
    by (simp add: a_missing_assertion_is_an_error_def va verify_assertion_work_def default_va_def
        fails_with_def Let_def)
  have key: "sample_keys (KeyHandle ''idx-1'') = Some (replicate 32 9)"
    by (simp add: sample_keys_def with_key_def)
  obtain x where x: "sw_blind_index clib sample_keys (KeyHandle ''idx-1'') ''t1'' (as_bytes ''user@example.com'') = Ok x"
    using lib_lawfulD(8) [OF assms(2), of "replicate 32 9"]
    by (auto simp: blind_index_frame [OF assms(2)] key is_ok_conv)
  have "blind_index_handler t0 m ?p = blind_index_work m ''t1''
      (?p\<lparr>limiter := snd (allow (default_limiter order) t0 ''t1'' ''blind_index'')\<rparr>)"
    if "bi_context m = ctx BlindIndex" for m
    using blind_index.after_gate [of m "the (ctx BlindIndex)" ?p t0 True] that
      ctx_accepted [of BlindIndex False] test_first_call [OF assms(1)] tenant [of BlindIndex] by simp
  then show "blind_index_returns_a_32_byte_index lib ?p t0 t1"
    using blind_index_length [OF assms(2) x]
    by (simp add: blind_index_returns_a_32_byte_index_def blind_index_work_def x unwrapped_def Let_def)
qed

text \<open>The AEAD does not accept the key that a first write from \<open>g\<close> mints under a second tenant.\<close>

definition minted_unambiguous :: "('g, 'k, 'h) crypto_lib \<Rightarrow> 'g \<Rightarrow> bool" where
  "minted_unambiguous lib g \<longleftrightarrow>
     (case sw_generate_wrapped_dek lib sample_keys (KeyHandle ''kek-1'') ''t1'' g of
        (Ok w, _) \<Rightarrow> \<not> wrapped_key_ambiguous (lib, sample_keys) (KeyHandle ''kek-1'') ''t1'' ''tenant-b'' w
      | _ \<Rightarrow> True)"

lemma own_row_test:
  assumes order: "\<forall>xs. mset (order xs) = mset xs" and "lib_lawful clib" and "seals_short_texts clib"
  shows "envelope_round_trip_over_the_service lib (test_guard clib order g) t0 t1"
proof -
  let ?p = "test_guard clib order g"
  have admits: "fst (allow (snd (allow (default_limiter order) t0 ''t1'' ''encrypt_field'')) t1 ''t1'' ''decrypt_field'')"
    by (rule two_operations_are_admitted(2) [OF order]) simp
  obtain w c g1 p' where w: "sw_generate_wrapped_dek clib sample_keys (KeyHandle ''kek-1'') ''t1'' g = (Ok w, g1)"
    and e: "encrypt_field_handler t0 \<lparr>ef_context = ctx RowEncrypt, ef_plaintext = as_bytes ''alice@example.com'',
        ef_wrapped_dek = []\<rparr> ?p = (Ok \<lparr>resp_ciphertext = c, resp_wrapped_dek = w\<rparr>, p')"
    and l: "limiter p' = snd (allow (default_limiter order) t0 ''t1'' ''encrypt_field'')"
    by (rule first_write [OF assms, of "as_bytes ''alice@example.com''" g t0]) simp_all
  have frame: "provider p' = software_provider (clib, sample_keys)" "kek p' = KeyHandle ''kek-1''"
    using encrypt_field.handler_frame [of t0 "\<lparr>ef_context = ctx RowEncrypt,
        ef_plaintext = as_bytes ''alice@example.com'', ef_wrapped_dek = []\<rparr>" ?p] e by simp_all
  have "length w = 60" by (rule length_generated [OF assms(2) w])
  moreover have "fst (decrypt_field_handler t1 \<lparr>df_context = ctx RowDecrypt, df_ciphertext = c,
      df_wrapped_dek = w\<rparr> p') = Ok \<lparr>resp_plaintext = as_bytes ''alice@example.com''\<rparr>"
    using software.row_round_trip [OF _ _ _ _ e, of "(clib, sample_keys)" p' "the (ctx RowEncrypt)"
        "\<lparr>df_context = ctx RowDecrypt, df_ciphertext = c, df_wrapped_dek = w\<rparr>" "the (ctx RowDecrypt)" t1]
      frame l admits assms(2) ctx_accepted [of RowDecrypt True] by (simp add: ctx_def)
  ultimately show "envelope_round_trip_over_the_service lib ?p t0 t1"
    by (auto simp: envelope_round_trip_over_the_service_def e unwrapped_def)
qed

lemma other_row_test:
  assumes order: "\<forall>xs. mset (order xs) = mset xs" and "lib_lawful clib" and "seals_short_texts clib"
    and "minted_unambiguous clib g"
  shows "another_tenant_cannot_decrypt_the_row lib (test_guard clib order g) t0 t1"
proof -
  let ?p = "test_guard clib order g" and ?other = "(the (ctx RowDecrypt))\<lparr>tenant_id := ''tenant-b''\<rparr>"
  have admits: "fst (allow (snd (allow (default_limiter order) t0 ''t1'' ''encrypt_field'')) t1
      ''tenant-b'' ''decrypt_field'')"
    by (rule two_operations_are_admitted(2) [OF order]) simp
  obtain w c g1 p' where w: "sw_generate_wrapped_dek clib sample_keys (KeyHandle ''kek-1'') ''t1'' g = (Ok w, g1)"
    and e: "encrypt_field_handler t0 \<lparr>ef_context = ctx RowEncrypt, ef_plaintext = as_bytes ''payload'',
        ef_wrapped_dek = []\<rparr> ?p = (Ok \<lparr>resp_ciphertext = c, resp_wrapped_dek = w\<rparr>, p')"
    and l: "limiter p' = snd (allow (default_limiter order) t0 ''t1'' ''encrypt_field'')"
    by (rule first_write [OF assms(1-3), of "as_bytes ''payload''" g t0]) simp_all
  have frame: "provider p' = software_provider (clib, sample_keys)" "kek p' = KeyHandle ''kek-1''"
    using encrypt_field.handler_frame [of t0 "\<lparr>ef_context = ctx RowEncrypt,
        ef_plaintext = as_bytes ''payload'', ef_wrapped_dek = []\<rparr>" ?p] e by simp_all
  have accepted: "validate (Some ?other) RowDecrypt True = Ok ()"
    by (simp add: ctx_def validate_Ok_cases well_formed_context_def get_purpose_as_i32)
  have "\<exists>st. fst (decrypt_field_handler t1 \<lparr>df_context = Some ?other, df_ciphertext = c,
      df_wrapped_dek = w\<rparr> p') = Err st \<and> st = permission_denied ''not available for this context''"
    using software.row_is_sealed [OF _ _ _ _ e, of "(clib, sample_keys)" p' "the (ctx RowEncrypt)"
        "\<lparr>df_context = Some ?other, df_ciphertext = c, df_wrapped_dek = w\<rparr>" ?other t1]
      frame l admits accepted assms(2,4) w by (auto simp: ctx_def minted_unambiguous_def)
  then show ?thesis
    by (auto simp: another_tenant_cannot_decrypt_the_row_def e unwrapped_def fails_with_def)
qed

subsection \<open>The flood\<close>

text \<open>A flood that trips nothing has been admitted call by call.\<close>

lemma flood_admitted:
  assumes "provider_total (provider p)" and "\<not> flood ts p"
  shows "admitted ''decrypt_field'' (limiter p) (map (\<lambda>t. (t, ''t1'', ''decrypt_field'')) ts) = length ts"
  using assms
proof (induction ts arbitrary: p)
  case (Cons t ts)
  let ?h = "decrypt_field_handler t flood_request p"
  have c: "df_context flood_request = Some (the (ctx RowDecrypt))" "tenant_id (the (ctx RowDecrypt)) = ''t1''"
    by (simp_all add: flood_request_def ctx_def)
  have v: "validate (Some (the (ctx RowDecrypt))) RowDecrypt True = Ok ()"
    using ctx_accepted [of RowDecrypt True] by (simp add: ctx_def)
  have total: "fst ?h \<noteq> Panic" "provider_total (provider (snd ?h))"
    using decrypt_field.audited_once(1) [OF Cons.prems(1)] Cons.prems(1)
    by (simp_all add: decrypt_field.handler_frame)
  have rest: "\<not> flood ts (snd ?h)"
    using Cons.prems(2) total(1) by (cases ?h; cases "fst ?h") (auto split: if_splits)
  have ok: "fst (allow (limiter p) t ''t1'' ''decrypt_field'')"
  proof (rule ccontr)
    assume "\<not> fst (allow (limiter p) t ''t1'' ''decrypt_field'')"
    then have "allow (limiter p) t ''t1'' ''decrypt_field'' =
        (False, snd (allow (limiter p) t ''t1'' ''decrypt_field''))" by (simp add: prod_eq_iff)
    with decrypt_field.after_gate [of flood_request, OF c(1) v, unfolded c(2), OF this] Cons.prems(2)
    show False by simp
  qed
  have "limiter (snd ?h) = snd (allow (limiter p) t ''t1'' ''decrypt_field'')"
    using decrypt_field.handler_limiter [of t flood_request p] v by (simp add: c)
  with ok Cons.IH [OF total(2) rest] show ?case by (simp add: split_beta)
qed simp

lemma flood_test:
  assumes "lib_lawful clib" and "sorted (map clock [0..<10000])" and "clock 9999 \<le> clock 0 + 3000000000"
  shows "a_flood_of_decrypts_trips_the_budget clock (test_guard clib order g)"
proof (rule ccontr)
  let ?ts = "map clock [0..<10000]"
  let ?cs = "map (\<lambda>t. (t, ''t1'', ''decrypt_field'')) ?ts"
  assume "\<not> ?thesis"
  then have "\<not> flood ?ts (test_guard clib order g)"
    by (simp add: a_flood_of_decrypts_trips_the_budget_def del: flood.simps)
  then have "admitted ''decrypt_field'' (default_limiter order) ?cs = length ?ts"
    using flood_admitted [OF _ \<open>\<not> flood ?ts _\<close>] software_total [OF assms(1)] by (simp del: upt_rec_numeral)
  moreover have fst_cs: "map fst ?cs = ?ts" by (simp add: o_def del: upt_rec_numeral)
  have "clock 0 \<le> t \<and> t \<le> clock 0 + 3 * 1000000000" if t: "t \<in> set ?ts" for t
  proof -
    obtain i where i: "t = clock i" "i < 10000" using t by (auto simp del: upt_rec_numeral)
    have "clock 0 \<le> clock i" "clock i \<le> clock 9999"
      using assms(2) i(2) by (auto simp: sorted_iff_nth_mono simp del: upt_rec_numeral
        dest: spec [where x = 0] spec [where x = 9999])
    with i(1) assms(3) show ?thesis by simp
  qed
  then have "admitted ''decrypt_field'' (default_limiter order) ?cs \<le> 6000 + 1000 * 3"
    using assms(2) by (intro default_ceiling [where ?t0.0 = "clock 0"]) (simp_all only: fst_cs length_map length_upt, auto)
  ultimately show False by (simp del: upt_rec_numeral)
qed

text \<open>C23: every test of the service passes: for every state of the generator, every order in which the
  hash maps iterate, every reading of the clock in the single-call tests, and in the flood test every
  clock that does not run backwards and spends at most three seconds on the ten thousand calls.\<close>

theorem service_tests_pass:
  assumes "\<forall>xs. mset (order xs) = mset xs" and "lib_lawful clib" and "seals_short_texts clib"
    and "minted_unambiguous clib g" and "json_from_slice lib (as_bytes ''not json'') = None"
    and "sorted (map clock [0..<10000])" and "clock 9999 \<le> clock 0 + 3000000000"
  shows "list_all (\<lambda>test. test lib (test_guard clib order g) t0 t1) service_tests \<and>
    a_flood_of_decrypts_trips_the_budget clock (test_guard clib order g)"
  by (simp add: service_tests_def gate_refusals answered_tests [OF assms(1,2,5)]
      own_row_test [OF assms(1-3)] other_row_test [OF assms(1-4)] flood_test [OF assms(2,6,7)])

theorem service_tests_pass_witness:
  "list_all (\<lambda>test. test (sample_crates\<lparr>json_from_slice := \<lambda>_. None\<rparr>) (test_guard test_lib rev 5) 7 8)
     service_tests \<and>
   a_flood_of_decrypts_trips_the_budget id (test_guard test_lib rev 5)"
proof (rule service_tests_pass [OF _ test_lib_lawful])
  show "seals_short_texts test_lib" by (simp add: seals_short_texts_def test_lib_def sample_lib_def)
  show "minted_unambiguous test_lib 5" by code_simp
qed (simp_all del: upt_rec_numeral)

end
