(* ===== verification/Spec2Isabelle.thy ===== *)
theory Spec2Isabelle
  imports Context_Gate Rate_Limiter_Properties Rate_Limiter_Recovery Rate_Limiter_Exact
    Rate_Limiter_Threads Rate_Limiter_Locks Software_Provider_Properties Webauthn_Properties
    Service_Properties Reply_Types Service_Threads Service_Floods Crypto_Grpc Risk_Grpc Profile Startup Secret_Buf
    Limits_Tests Gate_Tests Webauthn_Tests Software_Tests Service_Tests
begin

text \<open>
  A verification development for the crypto service of AI-Auth ("the Guard", \<open>crypto/src\<close>): the
  process that holds the keys, answers four gRPC operations (VerifyAssertion, EncryptField,
  DecryptField, BlindIndex) and defends them against a gateway that may be compromised.

  \<^bold>\<open>Parts and how they interact.\<close> A request arrives on a path; the generated server routes it to a
  handler of the Guard. Every handler first asks the T9 gate whether the request context is
  complete and declares the operation's purpose, then the rate limiter whether the operation
  and the tenant have budget left, and only then does its work: it verifies a WebAuthn assertion,
  or asks the crypto provider to mint, wrap and unwrap data keys, to seal and open fields, or to
  compute a blind index. Every outcome is one audit line on standard output. \<open>main\<close> configures the
  process and refuses to start when a precondition is not met.

  \<^bold>\<open>Theories, in the order of the code.\<close>
  \<^item> \<open>Prelude\<close>: Rust's integers as words, \<open>Result\<close> with panics visible (\<open>res\<close>), slices that panic out
    of range, strings as UTF-8 bytes, big-endian integers. \<open>rust_simps\<close> collects the inversion
    rules of the combinators.
  \<^item> \<open>Messages\<close>: the protobuf messages as records and its enumerations, \<open>gen/.../aiauth.crypto.v1.rs\<close>.
  \<^item> \<open>Context_Gate\<close>: \<open>validate\<close> of \<open>context.rs\<close>, check by check, and gRPC statuses.
  \<^item> \<open>Float64\<close>: the doubles of the limiter, as rationals rounded to nearest even at 53 bits; with
    exactness of small integers, monotonicity and the relative error of one rounding.
  \<^item> \<open>Token_Bucket\<close>, \<open>Rate_Limiter\<close>: \<open>Bucket\<close>, \<open>take\<close>, \<open>RateLimiter\<close>, \<open>allow\<close> with its two critical
    sections and its eviction, \<open>limits.rs\<close>. The locale \<open>token_bucket\<close> is the contract of one bucket.
    \<open>Rate_Limiter_Spec\<close> is the unbounded limiter that \<open>allow\<close> refines while refilled buckets make
    room; \<open>Rate_Limiter_Exact\<close> the limiter on natural numbers that it equals at whole seconds;
    \<open>Rate_Limiter_Properties\<close> holds the bounds, \<open>Rate_Limiter_Recovery\<close> what comes back after a quiet
    second. \<open>Rate_Limiter_Readings\<close> shows what the ceiling grants for clock readings in any order.
    \<open>Rate_Limiter_Threads\<close> is the step relation of any number of threads inside \<open>allow\<close>, where the clock is
    read before the lock is taken, with the ceiling that holds then and the schedule that reaches it;
    \<open>Rate_Limiter_Locks\<close> writes the two mutexes out, refines it, and shows that callers never wait for
    ever. The histories in the states (\<open>granted\<close>, \<open>admitted_log\<close>, \<open>readings\<close>) are ghosts.
  \<^item> \<open>Provider\<close>, \<open>Software_Provider\<close>: the trait \<open>CryptoProvider\<close> of \<open>provider.rs\<close> as a record of
    operations and as the locale \<open>crypto_provider\<close>; \<open>aead_seal\<close>, \<open>aead_open\<close>, \<open>aad\<close>, the key map and
    the operations of \<open>providers/software.rs\<close>, which interpret the locale for every lawful set of
    crates. \<open>Software_Provider_Properties\<close>: round trip, tenant binding, nonces, errors.
  \<^item> \<open>Webauthn\<close>, \<open>Webauthn_Properties\<close>: \<open>verify\<close> of \<open>webauthn.rs\<close> in its three stages, client data,
    authenticator data, signature; it equals the table of checks \<open>ceremony\<close>.
  \<^item> \<open>Service\<close>: \<open>Guard\<close>, \<open>audit\<close>, \<open>within_limits\<close>, \<open>fail\<close> and the four handlers of \<open>service.rs\<close>, as
    steps on a process state (guard, generator, lines written). The locale \<open>gated_handler\<close> is what
    handlers have in common, interpreted by all four. \<open>Server\<close>: the four handlers as one kind of
    request, and runs of many requests. \<open>Service_Properties\<close>: their guarantees; \<open>Reply_Types\<close>: which
    replies and statuses each operation can answer with. \<open>Service_Threads\<close> runs requests on any number
    of threads, step by step; what holds for \<open>serve\<close> one request at a time carries over.
    \<open>Service_Floods\<close> counts the answers of such a run against what the ceiling has granted.
  \<^item> \<open>Grpc\<close>: what is the same in every generated service, the server struct with its settings and
    builders, the arm of one unary method, the client struct and its calls. The locale
    \<open>unary_method\<close> is one generated method. \<open>Crypto_Grpc\<close>, \<open>gen/.../aiauth.crypto.v1.tonic.rs\<close>,
    interprets it four times and puts it in front of the Guard; \<open>Risk_Grpc\<close>, \<open>gen/aiauth/risk\<close>, holds
    the messages, the enumeration and the stubs of the risk service.
  \<^item> \<open>Profile\<close>, \<open>Startup\<close>, \<open>Secret_Buf\<close>: \<open>profile.rs\<close>, \<open>main.rs\<close>, and the buffer of \<open>lib.rs\<close>. A \<open>Run\<close> of
    \<open>main\<close> is how it ends, what it prints, and the configuration and guard it serves with, if it does.
  \<^item> \<open>Gate_Tests\<close>, \<open>Limits_Tests\<close>, \<open>Webauthn_Tests\<close>, \<open>Software_Tests\<close>, \<open>Service_Tests\<close>: the unit tests of
    the crate, line by line as definitions on the model, which they validate; the properties say
    that they pass for every lawful set of crates, clock and hash order, not only for one run.
  \<^item> This theory: the properties that need the whole: what a flood can drain from the process that
    \<open>main\<close> serves with, requests in parallel, and what happens to a
    row between its encryption and any later decryption.

  \<^bold>\<open>Parameters.\<close> Code that is not under \<open>src\<close> is an argument: the cryptographic crates
  (\<open>crypto_lib\<close>, with \<open>lib_lawful\<close> for what they document), the WebAuthn crates (\<open>webauthn_lib\<close>, no
  laws assumed but in its tests), the protobuf codec (\<open>codec\<close>, \<open>risk_codec\<close>), tonic (\<open>server_lib\<close>,
  \<open>client_lib\<close>, with \<open>delivers\<close> for one call that arrives and returns), the iteration order of hash
  maps (\<open>hash_order\<close>, any permutation), and the environment of the process (\<open>environment\<close>). AEAD
  security is not assumed: tenant isolation is stated up to the explicit event that the primitive
  authenticates one text under two different associated data, and blind indexes up to a collision
  of the MAC.

  \<^bold>\<open>Bounds.\<close> Nothing here needs fuel: all recursion is structural or has a measure. The limiter's
  guarantees carry the rounding of the doubles; with the default limits, and up to a thousand
  million calls and seconds, it never amounts to one admission. A call inside \<open>allow\<close> takes at most
  seven steps of its thread.

  \<^bold>\<open>Not modelled.\<close> TLS and HTTP/2, the inside of compression and message limits (tonic; which settings
  reach it is modelled), the protobuf encoding (prost), the asynchronous runtime (tokio), wiping
  of memory (zeroize), overflow of a double to infinity (it takes a refill above 3.6e306 per second,
  whose fiftyfold is infinite: then zero elapsed time gives NaN, which \<open>min\<close> turns into the capacity,
  where the model gives no credit; \<open>default_limiter\<close> refills 20 per second), the parser of socket addresses (a parameter
  of \<open>Startup\<close>), escapes of unprintable characters beyond ASCII in \<open>{:?}\<close>. Of the tests,
  \<open>ciphertext_never_contains_the_plaintext\<close>: no law of a cipher excludes that a ciphertext contains
  its plaintext by chance. \<open>limiter_is_send_and_sync\<close> and the static assertions are checks of types.
\<close>

section \<open>Floods\<close>

text \<open>C2: what a compromised gateway can drain. Take the process that \<open>main\<close> serves with, and any
  interleaving of any requests, for whatever tenants and in whatever mix. Within \<open>secs\<close> seconds of
  its start at most 6000 + 1000 * secs requests for one operation are answered with a result, and
  1000 * secs more for every request that reached the lock of the limiter with an older clock
  reading than the one before it: so many plaintexts, and no more, up to 10^9 calls and as many
  seconds of credit.\<close>

theorem flood_is_bounded:
  assumes "serving (main order clib env) = Some (cfg, g)" and "Guard.truncate p = g"
    and "requests_reach wlib (boot p t0) s" and "wall s \<le> t0 + secs * 1000000000"
    and "overtaken = late t0 (op_readings op (asked s))"
    and "length (asked s) \<le> 1000000000" and "secs * (1 + overtaken) \<le> 1000000000"
  shows "results op (served s) \<le> 6000 + 1000 * (secs * (1 + overtaken))"
proof -
  have "limiter p = limiter g" using arg_cong [OF assms(2), of limiter] by (simp add: Guard.truncate_def)
  also have "\<dots> = default_limiter order"
    by (simp add: serving_configured(3) [OF assms(1)] guard_of_def new_guard_def)
  finally show ?thesis
    using results_bounded [OF assms(3) _ assms(4,6), of order op] assms(5,7) by simp
qed

text \<open>One after another and with the clock in order, the same number without the exception.\<close>

lemma flood_in_sequence:
  assumes "Guard.truncate p = guard_of order clib cfg"
    and "sorted (map fst rs)" and "\<forall>t \<in> set (map fst rs). t0 \<le> t \<and> t \<le> t0 + s * 1000000000"
    and "s \<le> 1000000000" and "length rs \<le> 1000000000"
  shows "answered op rs (fst (run_requests wlib rs p)) \<le> 6000 + 1000 * s"
proof -
  have l: "limiter p = default_limiter order"
    using arg_cong [OF assms(1), of limiter]
    by (simp add: Guard.truncate_def guard_of_def new_guard_def)
  have "answered op rs (fst (run_requests wlib rs p)) \<le> admitted op (limiter p) (calls_of rs)"
    by (rule answered_le_admitted)
  also have "\<dots> \<le> 6000 + 1000 * s"
    unfolding l
  proof (rule default_ceiling)
    show "\<forall>t \<in> set (map fst (calls_of rs)). t0 \<le> t \<and> t \<le> t0 + s * 1000000000"
      using calls_of_subset assms(3) by blast
    show "length (calls_of rs) \<le> 1000000000"
      using calls_of_length [of rs] assms(5) by (rule order_trans)
  qed (rule calls_of_sorted [OF assms(2)], rule assms(4))
  finally show ?thesis .
qed

text \<open>A blind index that the process of the sample environment computes.\<close>

definition sample_index :: BlindIndexRequest where
  "sample_index = \<lparr>bi_context = Some (sample_context ''t1'' BlindIndex), bi_input = [1]\<rparr>"

definition served_process :: "nat Process" where
  "served_process = Guard.extend (guard_of id sample_lib sample_config) (Process.fields 5 [] [])"

lemma sample_indexed:
  obtains s where "requests_reach sample_crates (boot served_process 0) s" "wall s = 0"
    "asked s = [(0, ''blind_index'')]" "results ''blind_index'' (served s) = 1"
proof -
  let ?p = served_process and ?r = "Rpc_BlindIndex sample_index" and ?c = "sample_context ''t1'' BlindIndex"
  have t: "tenant_id ?c = ''t1''" by (simp add: sample_context_def)
  have p: "provider ?p = software_provider (sample_lib, cfg_keys sample_config)" "limiter ?p = default_limiter id"
    "index_key ?p = KeyHandle ''blind-index-v1''"
    by (simp_all add: served_process_def guard_of_def new_guard_def Guard.extend_def sample_config_def)
  have gate: "rpc_gate ?r = Ok ()" "rpc_context ?r = Some ?c"
    using sample_context_accepted [of "''t1''" BlindIndex False] by (simp_all add: rpc_gate_def sample_index_def)
  define l where "l = snd (allow (default_limiter id) 0 ''t1'' ''blind_index'')"
  have "fst (allow (default_limiter id) 0 ''t1'' ''blind_index'')" by (rule default_admits_first) simp
  then have "allow (limiter ?p) 0 (tenant_id ?c) (rpc_op ?r) = (True, l)"
    by (simp add: p t l_def prod_eq_iff)
  then have s: "serve sample_crates 0 ?r ?p = rpc_work sample_crates ?r ''t1'' (?p\<lparr>limiter := l\<rparr>)"
    using serve_after_checks [OF gate] t by simp
  have "cfg_keys sample_config (KeyHandle ''blind-index-v1'') = Some (replicate 32 0x5a)"
    by (simp add: sample_config_def with_key_def new_keys_def)
  then obtain x where "sw_blind_index sample_lib (cfg_keys sample_config) (KeyHandle ''blind-index-v1'') ''t1'' [1] = Ok x"
    using blind_index_frame [OF sample_lib_lawful] by (simp add: sample_lib_def)
  then have "fst (serve sample_crates 0 ?r ?p) = Ok (Reply_BlindIndex \<lparr>bi_index = x\<rparr>)"
    unfolding s by (simp add: map_step_fst blind_index_work_def sample_index_def p Let_def)
  then obtain p' where s': "serve sample_crates (wall (boot ?p 0)) ?r (proc (boot ?p 0)) =
      (Ok (Reply_BlindIndex \<lparr>bi_index = x\<rparr>), p')"
    by (cases "serve sample_crates 0 ?r ?p") (simp add: boot_def)
  obtain line where "requests_reach sample_crates (boot ?p 0)
      (finish 0 p' [(?r, Ok (Reply_BlindIndex \<lparr>bi_index = x\<rparr>), line)] (asks 0 ?r) (boot ?p 0))"
    using one_request [OF _ s', of 0] by (auto simp: boot_def)
  then show ?thesis
    by (rule that) (use gate in \<open>simp_all add: finish_def boot_def asks_def results_def\<close>)
qed

theorem flood_is_bounded_witness:
  "\<exists>g s. serving (main id sample_lib (sample_env '' STRICT '' (Ok ()))) = Some (sample_config, g) \<and>
     requests_reach sample_crates (boot served_process 0) s \<and> Guard.truncate served_process = g \<and>
     results ''blind_index'' (served s) = 1 \<and> results ''blind_index'' (served s) \<le> 6000"
proof -
  obtain s where s: "requests_reach sample_crates (boot served_process 0) s" "wall s = 0"
    "asked s = [(0, ''blind_index'')]" "results ''blind_index'' (served s) = 1"
    by (rule sample_indexed)
  have g: "Guard.truncate served_process = guard_of id sample_lib sample_config"
    by (simp add: served_process_def Guard.truncate_def Guard.extend_def)
  have "results ''blind_index'' (served s) \<le> 6000 + 1000 * (0 * (1 + 0))"
    by (rule flood_is_bounded [OF sample_serving g s(1)]) (simp_all add: s)
  with s g sample_serving show ?thesis by auto
qed

section \<open>Rows\<close>

text \<open>A row survives. What the service encrypted for a tenant, first write or not, it decrypts for
  that tenant at any later time, whatever requests it served in between, provided the gate and
  the limiter let the request through.\<close>

lemma row_survives_any_traffic:
  assumes "lib_lawful lib" and "provider p = software_provider (lib, keys)"
    and "encrypt_field_handler now m p = (Ok resp, p')" and "ef_context m = Some c"
    and "q = snd (run_requests wlib rs p')"
    and "df_context m' = Some c'" and "tenant_id c' = tenant_id c"
    and "df_ciphertext m' = resp_ciphertext resp" and "df_wrapped_dek m' = resp_wrapped_dek resp"
    and "validate (Some c') RowDecrypt True = Ok ()"
    and "fst (allow (limiter q) now' (tenant_id c') ''decrypt_field'')"
  shows "fst (decrypt_field_handler now' m' q) = Ok \<lparr>resp_plaintext = ef_plaintext m\<rparr>"
proof -
  have "provider p' = provider p" "kek p' = kek p"
    using encrypt_field.handler_frame [of now m p] assms(3) by simp_all
  then have "provider q = software_provider (lib, keys)" "kek q = kek p"
    using assms(2,5) by (simp_all add: run_requests_frame)
  then show ?thesis
    using software.row_round_trip [of "(lib, keys)" p q now m resp p' c m' c' now'] assms by simp
qed

lemma row_survives_any_traffic_witness:
  "\<exists>p'. encrypt_field_handler 0 sample_row sample_process =
      (Ok \<lparr>resp_ciphertext = sample_ciphertext, resp_wrapped_dek = sample_wrapped\<rparr>, p') \<and>
    fst (decrypt_field_handler 3 \<lparr>df_context = Some (sample_context ''t1'' RowDecrypt),
      df_ciphertext = sample_ciphertext, df_wrapped_dek = sample_wrapped\<rparr> p') = Ok \<lparr>resp_plaintext = [1]\<rparr>"
proof -
  obtain p' where p': "encrypt_field_handler 0 sample_row sample_process =
      (Ok \<lparr>resp_ciphertext = sample_ciphertext, resp_wrapped_dek = sample_wrapped\<rparr>, p')"
    "limiter p' = snd (allow (default_limiter id) 0 ''t1'' ''encrypt_field'')"
    using sample_written by blast
  have "fst (allow (limiter p') 3 ''t1'' ''decrypt_field'')"
    unfolding p'(2) by (rule two_operations_are_admitted(2)) simp_all
  then show ?thesis
    using row_survives_any_traffic [OF sample_lib_lawful _ p'(1), of sample_keys
        "sample_context ''t1'' RowEncrypt" p' sample_crates "[]" "\<lparr>df_context = Some (sample_context ''t1'' RowDecrypt),
        df_ciphertext = sample_ciphertext, df_wrapped_dek = sample_wrapped\<rparr>"
        "sample_context ''t1'' RowDecrypt" 3] p'(1)
      sample_context_accepted [of "''t1''" RowDecrypt True]
    by (simp add: sample_row_def) (simp add: sample_context_def)
qed

text \<open>C4: a row comes back. In a process as \<open>main\<close> builds it, what was encrypted for a tenant in the
  middle of any traffic is decrypted for that tenant a second after the traffic ends, and the
  limiter does not stand in the way: however much was asked, for however many tenants.\<close>

theorem row_comes_back_after_a_quiet_second:
  assumes "lib_lawful lib" and "\<forall>xs. mset (order xs) = mset xs"
    and "Guard.truncate p0 = guard_of order lib cfg"
    and "encrypt_field_handler now m (snd (run_requests wlib before p0)) = (Ok resp, p')"
    and "\<forall>t \<in> set (map fst before) \<union> {now} \<union> set (map fst after). t \<le> t_last"
    and "t_last + 1000000000 \<le> now'"
    and "ef_context m = Some c" and "df_context m' = Some c'" and "tenant_id c' = tenant_id c"
    and "df_ciphertext m' = resp_ciphertext resp" and "df_wrapped_dek m' = resp_wrapped_dek resp"
    and "validate (Some c') RowDecrypt True = Ok ()"
  shows "fst (decrypt_field_handler now' m' (snd (run_requests wlib after p'))) =
    Ok \<lparr>resp_plaintext = ef_plaintext m\<rparr>"
proof (rule software.row_round_trip [of "(lib, cfg_keys cfg)", OF _ _ _ _ assms(4,7,8,9,10,11,12)])
  let ?p = "snd (run_requests wlib before p0)" and ?q = "snd (run_requests wlib after p')"
  have p0: "provider p0 = software_provider (lib, cfg_keys cfg)" "limiter p0 = default_limiter order"
    using arg_cong [OF assms(3), of provider] arg_cong [OF assms(3), of limiter]
    by (simp_all add: Guard.truncate_def guard_of_def new_guard_def)
  have p': "provider p' = provider ?p" "kek p' = kek ?p"
    "limiter p' = snd (run_calls (limiter ?p) (limiter_calls (now, Rpc_EncryptField m)))"
    using encrypt_field.handler_frame [of now m ?p] serve_limiter [of wlib now "Rpc_EncryptField m" ?p]
      assms(4) by simp_all
  show "provider ?p = software_provider (lib, cfg_keys cfg)"
    and "provider ?q = software_provider (lib, cfg_keys cfg)" and "kek ?q = kek ?p"
    by (simp_all add: run_requests_frame p' p0)
  let ?cs = "calls_of before @ limiter_calls (now, Rpc_EncryptField m) @ calls_of after"
  have "set (map fst ?cs) \<subseteq> set (map fst before) \<union> {now} \<union> set (map fst after)"
    unfolding map_append set_append
    using calls_of_subset [of before] calls_of_subset [of after]
      limiter_calls_bounds(1) [of "(now, Rpc_EncryptField m)"] by (simp only: fst_conv) blast
  with assms(5) have "\<forall>t \<in> set (map fst ?cs). t \<le> t_last" by blast
  then have "\<forall>(now, tenant, op) \<in> set ?cs. now \<le> t_last"
    by (simp add: split_beta ball_Un)
  then have "fst (allow (snd (run_calls (default_limiter order) ?cs)) now' (tenant_id c') ''decrypt_field'')"
    unfolding default_limiter_def
    by (intro run_then_second [OF limiter_ok_new generous_new _ _ assms(6)])
      (simp_all add: assms(2) aged_def)
  then show "fst (allow (limiter ?q) now' (tenant_id c') ''decrypt_field'')"
    by (simp only: run_requests_limiter run_calls_append p' p0)
qed (simp add: assms(1))

theorem row_comes_back_after_a_quiet_second_witness:
  "\<exists>p'. encrypt_field_handler 0 sample_row sample_process =
      (Ok \<lparr>resp_ciphertext = sample_ciphertext, resp_wrapped_dek = sample_wrapped\<rparr>, p') \<and>
    fst (decrypt_field_handler 1000000007 \<lparr>df_context = Some (sample_context ''t1'' RowDecrypt),
      df_ciphertext = sample_ciphertext, df_wrapped_dek = sample_wrapped\<rparr>
      (snd (run_requests sample_crates (replicate 9000 (7, Rpc_EncryptField sample_row)) p'))) =
        Ok \<lparr>resp_plaintext = [1]\<rparr>"
proof -
  obtain p' where p': "encrypt_field_handler 0 sample_row sample_process =
      (Ok \<lparr>resp_ciphertext = sample_ciphertext, resp_wrapped_dek = sample_wrapped\<rparr>, p')"
    using sample_written by blast
  let ?cfg = "sample_config\<lparr>cfg_keys := sample_keys, cfg_kek := KeyHandle ''kek-1'',
    cfg_index_key := KeyHandle ''idx-1''\<rparr>"
  have "Guard.truncate sample_process = guard_of id sample_lib ?cfg"
    by (simp add: Guard.truncate_def guard_of_def new_guard_def)
  note guard = this
  let ?m = "\<lparr>df_context = Some (sample_context ''t1'' RowDecrypt), df_ciphertext = sample_ciphertext,
    df_wrapped_dek = sample_wrapped\<rparr>"
  have written: "encrypt_field_handler 0 sample_row (snd (run_requests sample_crates [] sample_process)) =
      (Ok \<lparr>resp_ciphertext = sample_ciphertext, resp_wrapped_dek = sample_wrapped\<rparr>, p')"
    using p' by simp
  have "validate (Some (sample_context ''t1'' RowDecrypt)) RowDecrypt True = Ok ()"
    by (rule sample_context_accepted) simp_all
  moreover have "ef_context sample_row = Some (sample_context ''t1'' RowEncrypt)"
    "tenant_id (sample_context ''t1'' RowDecrypt) = tenant_id (sample_context ''t1'' RowEncrypt)"
    "ef_plaintext sample_row = [1]"
    by (simp_all add: sample_row_def sample_context_def)
  ultimately have "fst (decrypt_field_handler 1000000007 ?m
      (snd (run_requests sample_crates (replicate 9000 (7, Rpc_EncryptField sample_row)) p'))) =
        Ok \<lparr>resp_plaintext = [1]\<rparr>"
    using row_comes_back_after_a_quiet_second [OF sample_lib_lawful _ guard written, where t_last = 7
        and now' = 1000000007 and after = "replicate 9000 (7, Rpc_EncryptField sample_row)" and m' = ?m]
    by (simp del: run_requests.simps)
  with p' show ?thesis by blast
qed

text \<open>C3: a row is sealed. For any other tenant the service never decrypts it, at any later time and
  whatever ciphertext comes with the row's wrapped key: the reply is an error, it is the one
  uninformative status once the gate and the limiter let the request through, unless the AEAD
  itself accepts one wrapped key under the associated data of both tenants.\<close>

theorem row_is_sealed_against_other_tenants:
  assumes "lib_lawful lib" and "provider p = software_provider (lib, keys)"
    and "encrypt_field_handler now m p = (Ok resp, p')" and "ef_context m = Some c"
    and "q = snd (run_requests wlib rs p')"
    and "df_context m' = Some c'" and "tenant_id c' \<noteq> tenant_id c"
    and "df_wrapped_dek m' = resp_wrapped_dek resp"
    and "\<not> wrapped_key_ambiguous (lib, keys) (kek p) (tenant_id c) (tenant_id c') (resp_wrapped_dek resp)"
  shows "\<exists>st. fst (decrypt_field_handler now' m' q) = Err st \<and>
    (validate (Some c') RowDecrypt True = Ok () \<and>
     fst (allow (limiter q) now' (tenant_id c') ''decrypt_field'') \<longrightarrow>
       st = permission_denied ''not available for this context'')"
proof -
  have "provider p' = provider p" "kek p' = kek p"
    using encrypt_field.handler_frame [of now m p] assms(3) by simp_all
  then have "provider q = software_provider (lib, keys)" "kek q = kek p"
    using assms(2,5) by (simp_all add: run_requests_frame)
  then show ?thesis
    using software.row_is_sealed [of "(lib, keys)" p q now m resp p' c m' c' now'] assms by auto
qed

theorem row_is_sealed_against_other_tenants_witness:
  "\<exists>p' st. encrypt_field_handler 0 sample_row sample_process =
      (Ok \<lparr>resp_ciphertext = sample_ciphertext, resp_wrapped_dek = sample_wrapped\<rparr>, p') \<and>
    fst (decrypt_field_handler 3 \<lparr>df_context = Some (sample_context ''t2'' RowDecrypt),
      df_ciphertext = sample_ciphertext, df_wrapped_dek = sample_wrapped\<rparr> p') = Err st"
proof -
  obtain p' where p': "encrypt_field_handler 0 sample_row sample_process =
      (Ok \<lparr>resp_ciphertext = sample_ciphertext, resp_wrapped_dek = sample_wrapped\<rparr>, p')"
    using sample_written by blast
  have "\<not> wrapped_key_ambiguous (sample_lib, sample_keys) (KeyHandle ''kek-1'') ''t1'' ''t2'' sample_wrapped"
    unfolding sample_wrapped_def by (rule sample_unambiguous)
  then show ?thesis
    using row_is_sealed_against_other_tenants [OF sample_lib_lawful _ p', of sample_keys
        "sample_context ''t1'' RowEncrypt" p' sample_crates "[]" "\<lparr>df_context = Some (sample_context ''t2'' RowDecrypt),
        df_ciphertext = sample_ciphertext, df_wrapped_dek = sample_wrapped\<rparr>"
        "sample_context ''t2'' RowDecrypt" 3] p'
    by (simp add: sample_row_def) (auto simp: sample_context_def)
qed

end
